theory Spec2Isabelle
  imports Complex_Main
begin

section \<open>Token pool (server.js, lines 64-99 and 1570-1647)\<close>

text \<open>
  A credential as the pool keeps it. JavaScript's \<^verbatim>\<open>null\<close>/\<^verbatim>\<open>undefined\<close> field is
  \<open>None\<close>. The session fallback of \<^verbatim>\<open>getNextToken\<close> fills only the first four fields.
\<close>

record token =
  name :: string
  cookies :: "string option"
  sessionToken :: "string option"
  accessToken :: "string option"
  authorization :: "string option"
  proxy :: "string option"
  projectId :: "string option"
  sceneId :: "string option"

text \<open>The ambient session object, as far as \<^verbatim>\<open>getNextToken\<close> reads it.\<close>

record session =
  s_cookies :: "string option"
  s_sessionToken :: "string option"
  s_accessToken :: "string option"

text \<open>The module variables \<^verbatim>\<open>tokenPool\<close> and \<^verbatim>\<open>currentTokenIndex\<close>.\<close>

record pool_state =
  tokenPool :: "token list"
  currentTokenIndex :: nat
  the_session :: session

text \<open>
  \<^verbatim>\<open>
  function getNextToken() {
    if (tokenPool.length === 0) {
      return { cookies: session.cookies, sessionToken: session.sessionToken,
               accessToken: session.accessToken, name: 'default' };
    }
    const token = tokenPool[currentTokenIndex];
    currentTokenIndex = (currentTokenIndex + 1) % tokenPool.length;
    return token;
  }
  \<close>
  Reading a JavaScript array past its end gives \<^verbatim>\<open>undefined\<close>: the result \<open>None\<close>.
\<close>

definition getNextToken :: "pool_state \<Rightarrow> token option \<times> pool_state" where
  "getNextToken st =
     (if length (tokenPool st) = 0 then
        (Some \<lparr> name = ''default'',
                 cookies = s_cookies (the_session st),
                 sessionToken = s_sessionToken (the_session st),
                 accessToken = s_accessToken (the_session st),
                 authorization = None, proxy = None, projectId = None, sceneId = None \<rparr>,
         st)
      else
        (if currentTokenIndex st < length (tokenPool st)
         then Some (tokenPool st ! currentTokenIndex st) else None,
         st \<lparr> currentTokenIndex := (currentTokenIndex st + 1) mod length (tokenPool st) \<rparr>))"

text \<open>The results of \<open>k\<close> successive calls, oldest first, and the state they leave.\<close>

fun next_calls :: "nat \<Rightarrow> pool_state \<Rightarrow> token option list \<times> pool_state" where
  "next_calls 0 st = ([], st)"
| "next_calls (Suc k) st =
     (case getNextToken st of (r, st') \<Rightarrow>
        (case next_calls k st' of (rs, st'') \<Rightarrow> (r # rs, st'')))"

text \<open>
  The pool entry that \<^verbatim>\<open>/api/load-token-pool\<close> builds from a stored token:
  \<^verbatim>\<open>accessToken\<close> is reset, \<^verbatim>\<open>projectId\<close>, \<^verbatim>\<open>sceneId\<close> and \<^verbatim>\<open>proxy\<close> are copied
  when they are set.
\<close>

definition poolToken :: "token \<Rightarrow> token" where
  "poolToken t = t \<lparr> accessToken := None \<rparr>"

text \<open>
  \<^verbatim>\<open>
  tokenPool = [];
  for (const tokenName of tokenNames) {
    const token = allTokens.find(t => t.name === tokenName);
    if (token) { ...; tokenPool.push(poolToken); } else { log(...not found...) }
  }
  currentTokenIndex = 0;
  \<close>
\<close>

fun load_pool_entries :: "token list \<Rightarrow> string list \<Rightarrow> token list" where
  "load_pool_entries allTokens [] = []"
| "load_pool_entries allTokens (tokenName # rest) =
     (case find (\<lambda>t. name t = tokenName) allTokens of
        Some t \<Rightarrow> poolToken t # load_pool_entries allTokens rest
      | None \<Rightarrow> load_pool_entries allTokens rest)"

definition load_token_pool :: "token list \<Rightarrow> string list \<Rightarrow> pool_state \<Rightarrow> pool_state" where
  "load_token_pool allTokens tokenNames st =
     st \<lparr> tokenPool := load_pool_entries allTokens tokenNames, currentTokenIndex := 0 \<rparr>"

section \<open>Request deduplication (server.js, lines 101-128)\<close>

text \<open>
  \<^verbatim>\<open>recentRequests\<close> is a \<^verbatim>\<open>Map\<close> from request hash to the \<^verbatim>\<open>Date.now()\<close> of its
  insertion, in milliseconds.
\<close>

type_synonym recent_requests = "string \<rightharpoonup> int"

definition REQUEST_DEDUP_WINDOW_MS :: int where
  "REQUEST_DEDUP_WINDOW_MS = 3000"

text \<open>
  \<^verbatim>\<open>
  for (const [hash, timestamp] of recentRequests.entries()) {
    if (now - timestamp > REQUEST_DEDUP_WINDOW_MS) recentRequests.delete(hash);
  }
  \<close>
\<close>

definition purge_old :: "int \<Rightarrow> recent_requests \<Rightarrow> recent_requests" where
  "purge_old now m =
     (\<lambda>h. case m h of
            None \<Rightarrow> None
          | Some timestamp \<Rightarrow>
              if now - timestamp > REQUEST_DEDUP_WINDOW_MS then None else Some timestamp)"

text \<open>
  \<^verbatim>\<open>
  function isDuplicateRequest(requestHash) {
    const now = Date.now();
    ... clean up old entries ...
    if (recentRequests.has(requestHash)) return true;
    recentRequests.set(requestHash, now);
    return false;
  }
  \<close>
  The clock reading \<open>now\<close> is an argument; the map is passed in and returned.
\<close>

definition isDuplicateRequest :: "int \<Rightarrow> string \<Rightarrow> recent_requests \<Rightarrow> bool \<times> recent_requests" where
  "isDuplicateRequest now requestHash m =
     (let m' = purge_old now m in
      if m' requestHash \<noteq> None then (True, m')
      else (False, m'(requestHash \<mapsto> now)))"

section \<open>JavaScript numbers and strings\<close>

text \<open>
  Strings are lists of 8-bit characters, which is what the header of an HTTP reply and the
  times of a clip are made of. White space, as \<^verbatim>\<open>parseInt\<close> and \<^verbatim>\<open>parseFloat\<close> skip it: the
  space, the characters 9 to 13 and the no-break space 160.
\<close>

definition is_white_space :: "char \<Rightarrow> bool" where
  "is_white_space c \<longleftrightarrow>
     c = CHR '' '' \<or> (9 \<le> (of_char c :: nat) \<and> (of_char c :: nat) \<le> 13) \<or> (of_char c :: nat) = 160"

definition strip_sign :: "string \<Rightarrow> bool \<times> string" where
  "strip_sign s =
     (case s of
        [] \<Rightarrow> (False, s)
      | c # cs \<Rightarrow> if c = CHR ''-'' then (True, cs) else if c = CHR ''+'' then (False, cs) else (False, s))"

text \<open>A decimal digit, and the number that a string of decimal digits writes.\<close>

definition is_decimal_digit :: "char \<Rightarrow> bool" where
  "is_decimal_digit c \<longleftrightarrow> 48 \<le> (of_char c :: nat) \<and> (of_char c :: nat) \<le> 57"

definition decimal_value :: "string \<Rightarrow> nat" where
  "decimal_value ds = foldl (\<lambda>a c. 10 * a + ((of_char c :: nat) - 48)) 0 ds"

text \<open>
  A JavaScript number is an IEEE 754 double: here \<^verbatim>\<open>NaN\<close>, the two infinities, or the
  rational number a finite double stands for. The sign of zero is not kept: nothing
  below can tell \<^verbatim>\<open>-0\<close> from \<^verbatim>\<open>0\<close>.
\<close>

datatype number = NaN | PosInfinity | NegInfinity | Finite rat

definition pow2 :: "int \<Rightarrow> rat" where
  "pow2 e = (if 0 \<le> e then 2 ^ nat e else 1 / 2 ^ nat (- e))"

text \<open>The binary exponent of a positive rational: \<open>pow2 e \<le> a < pow2 (e + 1)\<close>.\<close>

function log2_up :: "rat \<Rightarrow> int" where
  "log2_up a = (if a < 2 then 0 else log2_up (a / 2) + 1)"
  by pat_completeness auto
termination
proof (relation "measure (\<lambda>a. nat \<lfloor>a\<rfloor>)")
  show "wf (measure (\<lambda>a. nat \<lfloor>a :: rat\<rfloor>))" by simp
next
  fix a :: rat
  assume "\<not> a < 2"
  then have "a / 2 \<le> a - 1" by simp
  then have "\<lfloor>a / 2\<rfloor> \<le> \<lfloor>a - 1\<rfloor>" by (rule floor_mono)
  moreover have "1 \<le> \<lfloor>a\<rfloor>" using \<open>\<not> a < 2\<close> by (simp add: le_floor_iff)
  ultimately show "(a / 2, a) \<in> measure (\<lambda>a. nat \<lfloor>a\<rfloor>)" by simp
qed

function log2_down :: "rat \<Rightarrow> int" where
  "log2_down a = (if a \<le> 0 \<or> 1 \<le> a then 0 else log2_down (2 * a) - 1)"
  by pat_completeness auto
termination
proof (relation "measure (\<lambda>a. nat \<lceil>1 / a\<rceil>)")
  show "wf (measure (\<lambda>a. nat \<lceil>1 / a :: rat\<rceil>))" by simp
next
  fix a :: rat
  assume "\<not> (a \<le> 0 \<or> 1 \<le> a)"
  then have a: "0 < a" "a < 1" by simp_all
  then have big: "1 < 1 / a" by simp
  then have "2 \<le> \<lceil>1 / a\<rceil>" by (simp add: less_ceiling_iff le_ceiling_iff)
  define c where "c = \<lceil>1 / a\<rceil>"
  have "1 / (2 * a) = (1 / a) / 2" by simp
  also have "\<dots> \<le> of_int c / 2" unfolding c_def by (simp add: le_of_int_ceiling)
  also have "\<dots> \<le> of_int (c - 1)" using \<open>2 \<le> \<lceil>1 / a\<rceil>\<close> unfolding c_def [symmetric] by simp
  finally have "1 / (2 * a) \<le> of_int (c - 1)" .
  then have "\<lceil>1 / (2 * a)\<rceil> \<le> c - 1" by (rule ceiling_le)
  then have "\<lceil>1 / (2 * a)\<rceil> < \<lceil>1 / a\<rceil>" by (simp add: c_def)
  then show "(2 * a, a) \<in> measure (\<lambda>a. nat \<lceil>1 / a\<rceil>)"
    using a(1) by simp
qed

declare log2_up.simps [simp del] log2_down.simps [simp del]

definition floor_log2 :: "rat \<Rightarrow> int" where
  "floor_log2 a = (if 1 \<le> a then log2_up a else log2_down a)"

text \<open>Rounding to the nearest integer, a tie going to the even one.\<close>

definition round_half_even :: "rat \<Rightarrow> int" where
  "round_half_even m =
     (let f = \<lfloor>m\<rfloor>; d = m - of_int f in
      if d < 1 / 2 then f
      else if 1 / 2 < d then f + 1
      else if even f then f else f + 1)"

text \<open>
  The double nearest to a rational (round to nearest, ties to even): 53 significant
  bits at the binary exponent of the value, not below the exponent \<open>-1022\<close> of the
  subnormal numbers; a result of \<open>2^1024\<close> or more is infinite.
\<close>

definition round_to_double :: "rat \<Rightarrow> number" where
  "round_to_double x =
     (if x = 0 then Finite 0
      else
        (let a = \<bar>x\<bar>;
             e = max (floor_log2 a) (- 1022);
             ulp = pow2 (e - 52);
             r = of_int (round_half_even (a / ulp)) * ulp
         in if pow2 1024 \<le> r then (if 0 < x then PosInfinity else NegInfinity)
            else Finite (if 0 < x then r else - r)))"

text \<open>The sum of two numbers.\<close>

fun number_add :: "number \<Rightarrow> number \<Rightarrow> number" where
  "number_add (Finite a) (Finite b) = round_to_double (a + b)"
| "number_add NaN _ = NaN"
| "number_add _ NaN = NaN"
| "number_add PosInfinity NegInfinity = NaN"
| "number_add NegInfinity PosInfinity = NaN"
| "number_add PosInfinity _ = PosInfinity"
| "number_add _ PosInfinity = PosInfinity"
| "number_add NegInfinity _ = NegInfinity"
| "number_add _ NegInfinity = NegInfinity"

text \<open>
  The product of two numbers: rounded like the sum; an infinity times zero is \<^verbatim>\<open>NaN\<close>.
\<close>

fun number_mul :: "number \<Rightarrow> number \<Rightarrow> number" where
  "number_mul NaN _ = NaN"
| "number_mul _ NaN = NaN"
| "number_mul (Finite a) (Finite b) = round_to_double (a * b)"
| "number_mul (Finite a) y =
     (if a = 0 then NaN else if (0 < a) = (y = PosInfinity) then PosInfinity else NegInfinity)"
| "number_mul x (Finite b) =
     (if b = 0 then NaN else if (0 < b) = (x = PosInfinity) then PosInfinity else NegInfinity)"
| "number_mul x y = (if x = y then PosInfinity else NegInfinity)"

text \<open>
  \<^verbatim>\<open>parseInt(string)\<close> with no radix: leading white space is skipped, then an optional
  sign, then the prefix \<^verbatim>\<open>0x\<close>/\<^verbatim>\<open>0X\<close> selects radix 16, then the longest run of digits
  is read; no digit gives \<^verbatim>\<open>NaN\<close>. The result is a number: the integer read, rounded to
  the nearest double (the language fixes this for up to 20 significant digits).
\<close>

definition digit_value :: "nat \<Rightarrow> char \<Rightarrow> nat option" where
  "digit_value radix c =
     (let n = (of_char c :: nat);
          v = (if 48 \<le> n \<and> n \<le> 57 then Some (n - 48)
               else if 97 \<le> n \<and> n \<le> 122 then Some (n - 87)
               else if 65 \<le> n \<and> n \<le> 90 then Some (n - 55)
               else None)
      in case v of None \<Rightarrow> None | Some d \<Rightarrow> if d < radix then Some d else None)"

fun parse_digits :: "nat \<Rightarrow> nat \<Rightarrow> string \<Rightarrow> nat" where
  "parse_digits radix acc [] = acc"
| "parse_digits radix acc (c # cs) =
     (case digit_value radix c of
        None \<Rightarrow> acc
      | Some d \<Rightarrow> parse_digits radix (acc * radix + d) cs)"

definition strip_radix :: "string \<Rightarrow> nat \<times> string" where
  "strip_radix s =
     (case s of
        c # x # cs \<Rightarrow> if c = CHR ''0'' \<and> (x = CHR ''x'' \<or> x = CHR ''X'') then (16, cs) else (10, s)
      | _ \<Rightarrow> (10, s))"

definition parseInt :: "string \<Rightarrow> number" where
  "parseInt s =
     (case strip_sign (dropWhile is_white_space s) of (neg, s2) \<Rightarrow>
      case strip_radix s2 of (radix, s3) \<Rightarrow>
      (case s3 of
         [] \<Rightarrow> NaN
       | c # cs \<Rightarrow>
           (case digit_value radix c of
              None \<Rightarrow> NaN
            | Some d \<Rightarrow>
                round_to_double ((if neg then - 1 else 1) * of_nat (parse_digits radix 0 s3)))))"

text \<open>
  \<^verbatim>\<open>parseFloat(string)\<close>: leading white space is skipped, then the longest prefix that
  is a decimal literal is read: an optional sign, then \<^verbatim>\<open>Infinity\<close> or digits with an
  optional fraction and an optional exponent. No such prefix gives \<^verbatim>\<open>NaN\<close>. The value
  read is rounded to the nearest double (the language fixes this for literals of up to 20
  significant digits).
\<close>

definition starts_with :: "string \<Rightarrow> string \<Rightarrow> bool" where
  "starts_with s pre \<longleftrightarrow> take (length pre) s = pre"

definition exponent_part :: "string \<Rightarrow> int" where
  "exponent_part s =
     (case s of
        [] \<Rightarrow> 0
      | c # cs \<Rightarrow>
          if c = CHR ''e'' \<or> c = CHR ''E'' then
            (case strip_sign cs of (neg, ds) \<Rightarrow>
               if takeWhile is_decimal_digit ds = [] then 0
               else (if neg then - 1 else 1) * int (decimal_value (takeWhile is_decimal_digit ds)))
          else 0)"

definition pow10 :: "int \<Rightarrow> rat" where
  "pow10 e = (if 0 \<le> e then 10 ^ nat e else 1 / 10 ^ nat (- e))"

datatype literal = No_literal | Infinity_literal bool | Decimal_literal rat

definition read_literal :: "string \<Rightarrow> literal" where
  "read_literal s =
     (case strip_sign (dropWhile is_white_space s) of (neg, s2) \<Rightarrow>
        if starts_with s2 ''Infinity'' then Infinity_literal neg
        else
          (let int_digits = takeWhile is_decimal_digit s2;
               r1 = dropWhile is_decimal_digit s2;
               has_point = (r1 \<noteq> [] \<and> hd r1 = CHR ''.'');
               frac_digits = (if has_point then takeWhile is_decimal_digit (tl r1) else []);
               r2 = (if has_point then dropWhile is_decimal_digit (tl r1) else r1)
           in if int_digits = [] \<and> frac_digits = [] then No_literal
              else
                (let mv = (of_nat (decimal_value int_digits)
                            + of_nat (decimal_value frac_digits) / 10 ^ length frac_digits)
                          * pow10 (exponent_part r2)
                 in Decimal_literal (if neg then - mv else mv))))"

definition parseFloat :: "string \<Rightarrow> number" where
  "parseFloat s =
     (case read_literal s of
        No_literal \<Rightarrow> NaN
      | Infinity_literal neg \<Rightarrow> (if neg then NegInfinity else PosInfinity)
      | Decimal_literal mv \<Rightarrow> round_to_double mv)"

text \<open>The decimal digits of a natural number.\<close>

definition digit_char :: "nat \<Rightarrow> char" where
  "digit_char d = char_of (48 + d)"

function digits_of :: "nat \<Rightarrow> string" where
  "digits_of n = (if n < 10 then [digit_char n] else digits_of (n div 10) @ [digit_char (n mod 10)])"
  by pat_completeness auto
termination
  by (relation "measure id") auto

declare digits_of.simps [simp del]

text \<open>
  \<^verbatim>\<open>x.toFixed(9)\<close>. For a finite \<open>x\<close> below \<open>10^21\<close> in magnitude: the integer \<open>n\<close> with
  \<open>n / 10^9\<close> nearest to \<open>x\<close>, the larger one on a tie, written with at least ten digits
  and the point before the last nine. A magnitude of \<open>10^21\<close> or more is written in the
  exponential notation of \<^verbatim>\<open>Number.prototype.toString\<close>, which is not modelled: the
  result is \<open>None\<close> there.
\<close>

definition fixed9 :: "nat \<Rightarrow> string" where
  "fixed9 n =
     (let m = digits_of n;
          m' = (if length m \<le> 9 then replicate (10 - length m) CHR ''0'' @ m else m);
          k = length m'
      in take (k - 9) m' @ ''.'' @ drop (k - 9) m')"

definition toFixed9 :: "number \<Rightarrow> string option" where
  "toFixed9 x =
     (case x of
        NaN \<Rightarrow> Some ''NaN''
      | PosInfinity \<Rightarrow> Some ''Infinity''
      | NegInfinity \<Rightarrow> Some ''-Infinity''
      | Finite q \<Rightarrow>
          if 10 ^ 21 \<le> \<bar>q\<bar> then None
          else Some ((if q < 0 then ''-'' else []) @ fixed9 (nat \<lfloor>\<bar>q\<bar> * 10 ^ 9 + 1 / 2\<rfloor>)))"

text \<open>\<^verbatim>\<open>s.replace('s', '')\<close> removes the first \<^verbatim>\<open>s\<close>.\<close>

fun remove_first :: "char \<Rightarrow> string \<Rightarrow> string" where
  "remove_first c [] = []"
| "remove_first c (x # xs) = (if x = c then xs else x # remove_first c xs)"

text \<open>\<^verbatim>\<open>s.includes(pat)\<close> and \<^verbatim>\<open>s.toLowerCase()\<close> (on ASCII letters).\<close>

fun str_includes :: "string \<Rightarrow> string \<Rightarrow> bool" where
  "str_includes [] pat = (pat = [])"
| "str_includes (c # cs) pat = (starts_with (c # cs) pat \<or> str_includes cs pat)"

definition toLowerCase :: "string \<Rightarrow> string" where
  "toLowerCase s =
     map (\<lambda>c. if 65 \<le> (of_char c :: nat) \<and> (of_char c :: nat) \<le> 90
               then char_of ((of_char c :: nat) + 32) else c) s"

text \<open>A value is truthy when it is there and not the empty string.\<close>

definition truthy :: "string option \<Rightarrow> bool" where
  "truthy v \<longleftrightarrow> (case v of None \<Rightarrow> False | Some s \<Rightarrow> s \<noteq> [])"

section \<open>Rate-limited request executor (server.js, lines 171-179 and 241-316)\<close>

text \<open>
  What \<^verbatim>\<open>axios(config)\<close> can do: resolve with a response, or reject with an error
  that carries the provider's response (\<^verbatim>\<open>error.response\<close>, for a status outside 2xx)
  or carries none (a network failure). Of the response headers only
  \<^verbatim>\<open>retry-after\<close> is read.
\<close>

record response =
  status :: nat
  data :: string
  retry_after :: "string option"

datatype axios_error = HttpError response | NetworkError string

datatype axios_result = Resolved response | Rejected axios_error

text \<open>
  What \<^verbatim>\<open>axiosWithRetry\<close> throws: the axios error itself (\<^verbatim>\<open>throw error\<close>), or
  \<^verbatim>\<open>new Error(`API rate limit exceeded after ${maxRetries} retries`)\<close>.
\<close>

datatype exec_error = RateLimitExceeded nat | Propagated axios_error

record account_usage =
  requests :: nat
  rateLimited :: nat

record rate_limit_stats =
  totalRequests :: nat
  rateLimitedRequests :: nat
  retriedRequests :: nat
  failedAfterRetry :: nat
  lastRateLimitTime :: "int option"
  tokenUsageByAccount :: "string \<rightharpoonup> account_usage"

text \<open>
  \<^verbatim>\<open>const backoffMs = Math.min(1000 * Math.pow(2, retryCount), 32000);\<close>
  The power, the product and the minimum are exact in doubles: \<open>1000 * 2^k\<close> is a double as
  long as it is finite, and when the power or the product is infinite the minimum is
  32000 all the same.
\<close>

definition backoffMs :: "nat \<Rightarrow> int" where
  "backoffMs retryCount = min (1000 * 2 ^ retryCount) 32000"

text \<open>
  \<^verbatim>\<open>
  const retryAfter = error.response.headers['retry-after'];
  const waitMs = retryAfter ? parseInt(retryAfter) * 1000 : backoffMs;
  \<close>
  A missing header and the empty string are falsy. The product is one of doubles.
\<close>

definition waitMs :: "string option \<Rightarrow> nat \<Rightarrow> number" where
  "waitMs retryAfter retryCount =
     (case retryAfter of
        None \<Rightarrow> Finite (of_int (backoffMs retryCount))
      | Some h \<Rightarrow>
          if h = [] then Finite (of_int (backoffMs retryCount))
          else number_mul (parseInt h) (Finite 1000))"

text \<open>
  The bookkeeping of a 429 reply:
  \<^verbatim>\<open>
  if (retryCount === 0) { rateLimitStats.rateLimitedRequests++;
                          rateLimitStats.lastRateLimitTime = Date.now(); }
  rateLimitStats.retriedRequests++;
  if (!rateLimitStats.tokenUsageByAccount[accountName])
    rateLimitStats.tokenUsageByAccount[accountName] = { requests: 0, rateLimited: 0 };
  rateLimitStats.tokenUsageByAccount[accountName].rateLimited++;
  \<close>
\<close>

definition track_rate_limit :: "int \<Rightarrow> nat \<Rightarrow> string \<Rightarrow> rate_limit_stats \<Rightarrow> rate_limit_stats" where
  "track_rate_limit now retryCount accountName st =
     (let st1 = (if retryCount = 0
                 then st \<lparr> rateLimitedRequests := rateLimitedRequests st + 1,
                           lastRateLimitTime := Some now \<rparr>
                 else st);
          st2 = st1 \<lparr> retriedRequests := retriedRequests st1 + 1 \<rparr>;
          u = (case tokenUsageByAccount st2 accountName of
                 None \<Rightarrow> \<lparr> requests = 0, rateLimited = 0 \<rparr>
               | Some u \<Rightarrow> u)
      in st2 \<lparr> tokenUsageByAccount :=
                 (tokenUsageByAccount st2)(accountName \<mapsto> u \<lparr> rateLimited := rateLimited u + 1 \<rparr>) \<rparr>)"

text \<open>
  \<^verbatim>\<open>
  async function axiosWithRetry(config, retryCount = 0, maxRetries = 5,
                                accountName = 'unknown', proxyString = null) {
    if (retryCount === 0) rateLimitStats.totalRequests++;
    ... proxy into config ...
    try { const response = await axios(config); return response; }
    catch (error) {
      if (error.response && error.response.status === 429) {
        ... bookkeeping ...
        if (retryCount < maxRetries) {
          ... waitMs ...
          await new Promise(resolve => setTimeout(resolve, waitMs));
          return axiosWithRetry(config, retryCount + 1, maxRetries, accountName, proxyString);
        } else {
          rateLimitStats.failedAfterRetry++;
          throw new Error(`API rate limit exceeded after ${maxRetries} retries`);
        }
      }
      throw error;
    }
  }
  \<close>
  The environment is \<open>axios\<close>, the outcome of the request sent with a given
  \<open>retryCount\<close>, and the clock reading \<open>now\<close>. The proxy only changes the \<^verbatim>\<open>config\<close>
  handed to axios, whose outcome the environment fixes, so it is not part of the model.
  The result is what is returned or thrown, the values of \<^verbatim>\<open>waitMs\<close> handed to
  \<^verbatim>\<open>setTimeout\<close> (oldest first) and the counters.
\<close>

function axiosWithRetry ::
  "(nat \<Rightarrow> axios_result) \<Rightarrow> int \<Rightarrow> nat \<Rightarrow> nat \<Rightarrow> string \<Rightarrow> rate_limit_stats
     \<Rightarrow> (exec_error + response) \<times> number list \<times> rate_limit_stats" where
  "axiosWithRetry axios now retryCount maxRetries accountName st =
     (let st1 = (if retryCount = 0 then st \<lparr> totalRequests := totalRequests st + 1 \<rparr> else st) in
      case axios retryCount of
        Resolved r \<Rightarrow> (Inr r, [], st1)
      | Rejected (NetworkError e) \<Rightarrow> (Inl (Propagated (NetworkError e)), [], st1)
      | Rejected (HttpError r) \<Rightarrow>
          if status r = 429 then
            (let st2 = track_rate_limit now retryCount accountName st1 in
             if retryCount < maxRetries then
               (case axiosWithRetry axios now (retryCount + 1) maxRetries accountName st2 of
                  (res, waits, st3) \<Rightarrow> (res, waitMs (retry_after r) retryCount # waits, st3))
             else (Inl (RateLimitExceeded maxRetries), [],
                   st2 \<lparr> failedAfterRetry := failedAfterRetry st2 + 1 \<rparr>))
          else (Inl (Propagated (HttpError r)), [], st1))"
  by pat_completeness auto
termination
  by (relation "measure (\<lambda>(axios, now, retryCount, maxRetries, accountName, st). maxRetries - retryCount)") auto

declare axiosWithRetry.simps [simp del]

text \<open>The call with the default arguments \<^verbatim>\<open>retryCount = 0\<close> and \<^verbatim>\<open>maxRetries = 5\<close>.\<close>

definition axiosWithRetry_default ::
  "(nat \<Rightarrow> axios_result) \<Rightarrow> int \<Rightarrow> string \<Rightarrow> rate_limit_stats
     \<Rightarrow> (exec_error + response) \<times> number list \<times> rate_limit_stats" where
  "axiosWithRetry_default axios now accountName st = axiosWithRetry axios now 0 5 accountName st"

text \<open>A reply that is an HTTP error with status 429, and the header it carries.\<close>

definition rate_limited :: "axios_result \<Rightarrow> bool" where
  "rate_limited res \<longleftrightarrow>
     (case res of Rejected (HttpError r) \<Rightarrow> status r = 429 | _ \<Rightarrow> False)"

definition retry_after_of :: "axios_result \<Rightarrow> string option" where
  "retry_after_of res =
     (case res of Rejected (HttpError r) \<Rightarrow> retry_after r | _ \<Rightarrow> None)"

section \<open>The generate-start-end endpoint (server.js, lines 3208-3342)\<close>

text \<open>
  The request body. A field that is missing is \<open>None\<close>.
\<close>

record start_end_request =
  req_projectId :: "string option"
  req_sceneId :: "string option"
  startImageMediaId :: "string option"
  endImageMediaId :: "string option"
  prompt :: "string option"
  aspectRatio :: "string option"
  seeds :: "nat list option"
  tokenName :: "string option"

record operation =
  op_name :: string
  op_sceneId :: "string option"
  op_status :: string

text \<open>
  Whatever is thrown inside the handler's \<^verbatim>\<open>try\<close> block ends in
  \<^verbatim>\<open>res.json({ success: false, error: err.message })\<close>. The two early returns are the
  duplicate rejection and the unknown lane.
\<close>

datatype thrown =
    ExecError exec_error
  | FileReadError
  | AccessTokenError
  | TypeError

datatype reply =
    Reply_operations "operation list"
  | Duplicate_request
  | Lane_not_found string
  | Reply_thrown thrown

text \<open>The module state of server.js that the handler touches.\<close>

record server_state =
  recentRequests :: recent_requests
  pool :: pool_state
  rateLimitStats :: rate_limit_stats

text \<open>
  What the handler gets from outside: the clock at the duplicate check and at the
  request, the tokens file (\<open>None\<close> when reading it throws), a fresh access token (\<open>None\<close>
  when \<^verbatim>\<open>getAccessToken\<close> throws), the provider's replies and the operations read from
  a reply body (\<open>None\<close> when \<^verbatim>\<open>response.data.operations.map\<close> throws).
\<close>

record handler_env =
  env_now :: int
  env_now_request :: int
  env_file_tokens :: "token list option"
  env_access_token :: "string option"
  env_axios :: "nat \<Rightarrow> axios_result"
  env_operations :: "string \<Rightarrow> operation list option"

text \<open>
  The part of the handler after the lane is chosen:
  \<^verbatim>\<open>
  const laneName = tokenObj.name || 'default';
  ... log(... prompt.substring(0, 50) ...)
  if (tokenObj.authorization) token = ...; else token = await getAccessToken(true, tokenObj);
  ...
  const response = await axiosWithRetry({...}, 0, 5, laneName, proxyString);
  const operations = response.data.operations.map(op => ({...}));
  res.json({ success: true, operations });
  \<close>
  \<open>tokenObj\<close> is \<open>None\<close> for \<^verbatim>\<open>undefined\<close>, on which \<^verbatim>\<open>tokenObj.name\<close> throws.
\<close>

definition submit_start_end ::
  "handler_env \<Rightarrow> start_end_request \<Rightarrow> token option \<Rightarrow> server_state \<Rightarrow> reply \<times> server_state" where
  "submit_start_end env req tokenObj st =
     (case tokenObj of
        None \<Rightarrow> (Reply_thrown TypeError, st)
      | Some tok \<Rightarrow>
          (let laneName = (if name tok = [] then ''default'' else name tok) in
           case prompt req of
             None \<Rightarrow> (Reply_thrown TypeError, st)
           | Some p \<Rightarrow>
               if (authorization tok = None \<or> authorization tok = Some []) \<and> env_access_token env = None
               then (Reply_thrown AccessTokenError, st)
               else
                 (case axiosWithRetry (env_axios env) (env_now_request env) 0 5 laneName (rateLimitStats st) of
                    (Inl e, waits, stats) \<Rightarrow>
                      (Reply_thrown (ExecError e), st \<lparr> rateLimitStats := stats \<rparr>)
                  | (Inr r, waits, stats) \<Rightarrow>
                      (case env_operations env (data r) of
                         None \<Rightarrow> (Reply_thrown TypeError, st \<lparr> rateLimitStats := stats \<rparr>)
                       | Some ops \<Rightarrow> (Reply_operations ops, st \<lparr> rateLimitStats := stats \<rparr>)))))"

text \<open>
  \<^verbatim>\<open>
  const requestHash = getRequestHash({ projectId: reqProjectId, ..., tokenName });
  if (isDuplicateRequest(requestHash)) {
    return res.json({ success: false, error: 'Duplicate request detected. ...' });
  }
  let tokenObj;
  if (tokenName) {
    const allTokens = await readTokensFromFile();
    tokenObj = allTokens.find(t => t.name === tokenName);
    if (!tokenObj) return res.json({ success: false, error: `Lane "${tokenName}" not found ...` });
  } else {
    tokenObj = getNextToken();
  }
  \<close>
  \<^verbatim>\<open>getRequestHash\<close> is the MD5 digest of the serialised fields, a library function: it
  is the parameter \<open>getRequestHash\<close>.
\<close>

definition generate_start_end ::
  "(start_end_request \<Rightarrow> string) \<Rightarrow> handler_env \<Rightarrow> start_end_request \<Rightarrow> server_state
     \<Rightarrow> reply \<times> server_state" where
  "generate_start_end getRequestHash env req st =
     (case isDuplicateRequest (env_now env) (getRequestHash req) (recentRequests st) of
        (True, m) \<Rightarrow> (Duplicate_request, st \<lparr> recentRequests := m \<rparr>)
      | (False, m) \<Rightarrow>
          (let st1 = st \<lparr> recentRequests := m \<rparr>;
               named = (case tokenName req of None \<Rightarrow> [] | Some n \<Rightarrow> n) in
           if named \<noteq> [] then
             (case env_file_tokens env of
                None \<Rightarrow> (Reply_thrown FileReadError, st1)
              | Some allTokens \<Rightarrow>
                  (case find (\<lambda>t. name t = named) allTokens of
                     None \<Rightarrow> (Lane_not_found named, st1)
                   | Some tok \<Rightarrow> submit_start_end env req (Some tok) st1))
           else
             (case getNextToken (pool st1) of
                (tokenObj, pool') \<Rightarrow> submit_start_end env req tokenObj (st1 \<lparr> pool := pool' \<rparr>))))"

section \<open>Clip construction (index.js, lines 557-572)\<close>

text \<open>A clip of the scene. A field the provider left out is \<open>None\<close>.\<close>

record clip =
  clipId :: "string option"
  startTime :: "string option"
  endTime :: "string option"
  clip_prompt :: "string option"

text \<open>The two literals \<^verbatim>\<open>0.000000001\<close> and \<^verbatim>\<open>7.000000001\<close>, as doubles.\<close>

definition epsilon_literal :: number where
  "epsilon_literal = round_to_double (1 / 10 ^ 9)"

definition duration_literal :: number where
  "duration_literal = round_to_double (7000000001 / 10 ^ 9)"

text \<open>
  \<^verbatim>\<open>
  const lastClip = initialClips[initialClips.length - 1];
  const lastEndTime = lastClip ? parseFloat(lastClip.endTime.replace('s', '')) : 0;
  const newStartTime = (lastEndTime + 0.000000001).toFixed(9) + 's';
  const newEndTime = (lastEndTime + 7.000000001).toFixed(9) + 's';
  const newClip = { clipId: selectedMediaId, startTime: newStartTime,
                    endTime: newEndTime, prompt };
  const updatedClips = [...initialClips, newClip];
  \<close>
  \<^verbatim>\<open>lastClip.endTime.replace\<close> throws a TypeError when the last clip has no
  \<^verbatim>\<open>endTime\<close>.
\<close>

datatype 'a computed = Throws_TypeError | Exponential_notation | Value 'a

definition lastEndTime :: "clip list \<Rightarrow> number computed" where
  "lastEndTime initialClips =
     (if initialClips = [] then Value (Finite 0)
      else (case endTime (last initialClips) of
              None \<Rightarrow> Throws_TypeError
            | Some s \<Rightarrow> Value (parseFloat (remove_first CHR ''s'' s))))"

definition newClip :: "clip list \<Rightarrow> string option \<Rightarrow> string \<Rightarrow> clip computed" where
  "newClip initialClips selected prompt_text =
     (case lastEndTime initialClips of
        Throws_TypeError \<Rightarrow> Throws_TypeError
      | Exponential_notation \<Rightarrow> Exponential_notation
      | Value t \<Rightarrow>
          (case (toFixed9 (number_add t epsilon_literal), toFixed9 (number_add t duration_literal)) of
             (Some newStart, Some newEnd) \<Rightarrow>
               Value \<lparr> clipId = selected, startTime = Some (newStart @ ''s''),
                       endTime = Some (newEnd @ ''s''), clip_prompt = Some prompt_text \<rparr>
           | _ \<Rightarrow> Exponential_notation))"

section \<open>The batch poll loop of runAutoLogger (index.js, lines 396-506)\<close>

text \<open>
  An operation as the status endpoint reports it. \<^verbatim>\<open>op.operation\<close> may be missing;
  \<open>h_fifeUrl\<close> is \<^verbatim>\<open>op.operation?.metadata?.video?.fifeUrl\<close>, and \<open>po_message\<close> is
  \<^verbatim>\<open>op.operation?.error?.message\<close>, the reason of a failure, which this loop never reads.
\<close>

record op_handle =
  h_name :: "string option"
  h_fifeUrl :: "string option"

record poll_op =
  po_status :: string
  mediaGenerationId :: "string option"
  po_operation :: "op_handle option"
  po_sceneId :: "string option"
  po_message :: "string option"

text \<open>An entry of \<^verbatim>\<open>resultOps\<close>, the handles sent with the next status request.\<close>

record result_op =
  ro_name :: "string option"
  ro_sceneId :: "string option"
  ro_status :: "string option"

text \<open>
  The reply to one status request: the request throws, or it delivers a body whose
  \<^verbatim>\<open>operations\<close> field is an array (\<open>Some\<close>) or is not (\<open>None\<close>).
\<close>

datatype poll_reply = Poll_throws | Poll_data "poll_op list option"

record poll_state =
  pollDone :: bool
  pollAttempts :: nat
  selectedMediaId :: "string option"
  videoUrls :: "string list"
  resultOps :: "result_op list"
  slept :: "nat list"
  successCountPoll :: nat
  activeCount :: nat
  pendingCount :: nat
  failedCount :: nat

definition maxPoll :: nat where
  "maxPoll = 120"

text \<open>
  The body of \<^verbatim>\<open>statusData.operations.forEach\<close>:
  \<^verbatim>\<open>
  if (op.status === 'MEDIA_GENERATION_STATUS_SUCCESSFUL') {
    successCountPoll++;
    if (op.mediaGenerationId) {
      if (!selectedMediaId) { selectedMediaId = op.mediaGenerationId; ... }
      const fifeUrl = op.operation?.metadata?.video?.fifeUrl;
      if (fifeUrl && !videoUrls.includes(fifeUrl)) { videoUrls.push(fifeUrl); ... }
    }
  } else if (op.status === 'MEDIA_GENERATION_STATUS_ACTIVE') { activeCount++; }
  else if (op.status === 'MEDIA_GENERATION_STATUS_PENDING') { pendingCount++; }
  else if (op.status === 'MEDIA_GENERATION_STATUS_FAILED') { failedCount++; }
  \<close>
\<close>

definition fifeUrl_of :: "poll_op \<Rightarrow> string option" where
  "fifeUrl_of op = (case po_operation op of None \<Rightarrow> None | Some h \<Rightarrow> h_fifeUrl h)"

definition observe :: "poll_state \<Rightarrow> poll_op \<Rightarrow> poll_state" where
  "observe st op =
     (if po_status op = ''MEDIA_GENERATION_STATUS_SUCCESSFUL'' then
        (let st1 = st \<lparr> successCountPoll := successCountPoll st + 1 \<rparr> in
         if truthy (mediaGenerationId op) then
           (let st2 = (if \<not> truthy (selectedMediaId st1)
                       then st1 \<lparr> selectedMediaId := mediaGenerationId op \<rparr> else st1)
            in case fifeUrl_of op of
                 None \<Rightarrow> st2
               | Some url \<Rightarrow>
                   if url \<noteq> [] \<and> url \<notin> set (videoUrls st2)
                   then st2 \<lparr> videoUrls := videoUrls st2 @ [url] \<rparr> else st2)
         else st1)
      else if po_status op = ''MEDIA_GENERATION_STATUS_ACTIVE'' then
        st \<lparr> activeCount := activeCount st + 1 \<rparr>
      else if po_status op = ''MEDIA_GENERATION_STATUS_PENDING'' then
        st \<lparr> pendingCount := pendingCount st + 1 \<rparr>
      else if po_status op = ''MEDIA_GENERATION_STATUS_FAILED'' then
        st \<lparr> failedCount := failedCount st + 1 \<rparr>
      else st)"

definition result_op_of :: "poll_op \<Rightarrow> result_op" where
  "result_op_of op =
     \<lparr> ro_name = (case po_operation op of None \<Rightarrow> None | Some h \<Rightarrow> h_name h),
       ro_sceneId = po_sceneId op, ro_status = Some (po_status op) \<rparr>"

text \<open>
  One pass of the \<^verbatim>\<open>while\<close> body:
  \<^verbatim>\<open>
  pollAttempts++;
  try {
    const pollRes = await axios.post(checkStatusUrl, checkBody, {...});
    const statusData = pollRes.data;
    if (statusData.operations && Array.isArray(statusData.operations)) {
      let successCountPoll = 0; let activeCount = 0; let pendingCount = 0; let failedCount = 0;
      statusData.operations.forEach(...);
      const completedCount = successCountPoll + failedCount;
      if (completedCount >= totalVariants) { pollDone = true; ... }
      resultOps = statusData.operations.map(op => ({ operation: { name: op.operation.name }, ... }));
    }
  } catch (e) { console.error(...); }
  if (!pollDone && pollAttempts < maxPoll) { await new Promise(r => setTimeout(r, 10000)); }
  \<close>
  \<^verbatim>\<open>op.operation.name\<close> throws when an operation has no \<^verbatim>\<open>operation\<close> field; the
  \<^verbatim>\<open>catch\<close> then leaves \<^verbatim>\<open>resultOps\<close> as it was.
\<close>

definition poll_tick :: "poll_reply \<Rightarrow> nat \<Rightarrow> poll_state \<Rightarrow> poll_state" where
  "poll_tick reply totalVariants st =
     (let st1 = st \<lparr> pollAttempts := pollAttempts st + 1 \<rparr>;
          st2 = (case reply of
                   Poll_throws \<Rightarrow> st1
                 | Poll_data None \<Rightarrow> st1
                 | Poll_data (Some ops) \<Rightarrow>
                     (let st3 = foldl observe
                                  (st1 \<lparr> successCountPoll := 0, activeCount := 0,
                                         pendingCount := 0, failedCount := 0 \<rparr>) ops;
                          st4 = (if successCountPoll st3 + failedCount st3 \<ge> totalVariants
                                 then st3 \<lparr> pollDone := True \<rparr> else st3)
                      in if \<forall>op \<in> set ops. po_operation op \<noteq> None
                         then st4 \<lparr> resultOps := map result_op_of ops \<rparr> else st4))
      in if \<not> pollDone st2 \<and> pollAttempts st2 < maxPoll
         then st2 \<lparr> slept := slept st2 @ [10000] \<rparr> else st2)"

text \<open>
  \<^verbatim>\<open>while (pollAttempts < maxPoll && !pollDone) { ... }\<close>, with \<open>replies k\<close> the reply
  to the request sent when \<^verbatim>\<open>pollAttempts\<close> was \<open>k\<close>.
\<close>

function poll_loop :: "(nat \<Rightarrow> poll_reply) \<Rightarrow> nat \<Rightarrow> poll_state \<Rightarrow> poll_state" where
  "poll_loop replies totalVariants st =
     (if pollAttempts st < maxPoll \<and> \<not> pollDone st
      then poll_loop replies totalVariants (poll_tick (replies (pollAttempts st)) totalVariants st)
      else st)"
  by pat_completeness auto
termination
proof (relation "measure (\<lambda>(replies, totalVariants, st). maxPoll - pollAttempts st)")
  show "wf (measure (\<lambda>(replies :: nat \<Rightarrow> poll_reply, totalVariants :: nat, st). maxPoll - pollAttempts st))"
    by simp
next
  fix replies :: "nat \<Rightarrow> poll_reply" and totalVariants :: nat and st :: poll_state
  assume a: "pollAttempts st < maxPoll \<and> \<not> pollDone st"
  have obs: "pollAttempts (observe s op) = pollAttempts s" for s op
    by (simp add: observe_def Let_def split: option.splits)
  have fold: "pollAttempts (foldl observe s ops) = pollAttempts s" for s ops
    by (induction ops arbitrary: s) (simp_all add: obs)
  have "pollAttempts (poll_tick r totalVariants st) = pollAttempts st + 1" for r
    by (simp add: poll_tick_def Let_def fold split: poll_reply.splits option.splits)
  then show "((replies, totalVariants, poll_tick (replies (pollAttempts st)) totalVariants st),
              (replies, totalVariants, st))
             \<in> measure (\<lambda>(replies, totalVariants, st). maxPoll - pollAttempts st)"
    using a by auto
qed

declare poll_loop.simps [simp del]

text \<open>
  \<^verbatim>\<open>
  let pollDone = false; let pollAttempts = 0; const maxPoll = 120;
  let selectedMediaId = null; let videoUrls = [];
  const totalVariants = resultOps.length;
  \<close>
\<close>

definition start_polling :: "result_op list \<Rightarrow> poll_state" where
  "start_polling ops =
     \<lparr> pollDone = False, pollAttempts = 0, selectedMediaId = None, videoUrls = [],
       resultOps = ops, slept = [], successCountPoll = 0, activeCount = 0,
       pendingCount = 0, failedCount = 0 \<rparr>"

definition poll_job :: "(nat \<Rightarrow> poll_reply) \<Rightarrow> result_op list \<Rightarrow> poll_state" where
  "poll_job replies ops = poll_loop replies (length ops) (start_polling ops)"

section \<open>One prompt of runAutoLogger (index.js, lines 266-624)\<close>

text \<open>
  The variables of \<^verbatim>\<open>runAutoLogger\<close> that outlive a prompt: the local copy of the
  scene's clips, the anchor for the next continue job, and the two tallies of the run.
\<close>

datatype prompt_error =
    Generate_request_failed
  | Poll_timeout
  | Download_failed nat
  | Update_scene_failed

record error_prompt =
  ep_number :: nat
  ep_prompt :: string
  ep_error :: prompt_error

record chain_state =
  initialClips :: "clip list"
  lastClipId :: "string option"
  successCount :: nat
  errorPrompts :: "error_prompt list"

text \<open>
  What the provider does for one prompt: the reply to the generate request (it throws,
  it has no \<^verbatim>\<open>operations\<close> array, or it lists the operations), the replies to the status
  requests, whether the download of video \<open>i\<close> succeeds and whether
  \<^verbatim>\<open>project.updateScene\<close> succeeds.
\<close>

datatype gen_reply = Gen_throws | Gen_no_operations | Gen_operations "result_op list"

record prompt_env =
  pe_generate :: gen_reply
  pe_status :: "nat \<Rightarrow> poll_reply"
  pe_download_ok :: "nat \<Rightarrow> bool"
  pe_update_ok :: bool

definition record_error :: "nat \<Rightarrow> string \<Rightarrow> prompt_error \<Rightarrow> chain_state \<Rightarrow> chain_state" where
  "record_error promptNumber prompt_text e cs =
     cs \<lparr> errorPrompts := errorPrompts cs
            @ [\<lparr> ep_number = promptNumber, ep_prompt = take 100 prompt_text, ep_error = e \<rparr>] \<rparr>"

text \<open>
  \<^verbatim>\<open>
  if (videoUrls.length > 0) {
    let downloadSuccess = true;
    for (let i = 0; i < videoUrls.length && i < 2; i++) {
      try { ... download ... } catch (e) { downloadSuccess = false; errorPrompts.push({...}); ... }
    }
    if (downloadSuccess) successCount++;
  }
  \<close>
\<close>

definition download_videos :: "(nat \<Rightarrow> bool) \<Rightarrow> nat \<Rightarrow> string \<Rightarrow> string list \<Rightarrow> chain_state \<Rightarrow> chain_state" where
  "download_videos download_ok promptNumber prompt_text urls cs =
     (if urls = [] then cs
      else
        (let failed = filter (\<lambda>i. \<not> download_ok i) [0 ..< min (length urls) 2];
             cs1 = foldl (\<lambda>c i. record_error promptNumber prompt_text (Download_failed i) c) cs failed
         in if failed = [] then cs1 \<lparr> successCount := successCount cs1 + 1 \<rparr> else cs1))"

text \<open>
  \<^verbatim>\<open>
  ... newClip, updatedClips ...
  try {
    const updateRes = await axios.post(updateUrl, JSON.stringify(updateBody), {...});
    initialClips = updatedClips;
    lastClipId = selectedMediaId;
  } catch (e) {
    errorPrompts.push({ number: promptNumber, prompt: prompt.substring(0, 100), error: ... });
    await sendTelegram(...);
    continue;
  }
  \<close>
\<close>

definition update_scene :: "bool \<Rightarrow> nat \<Rightarrow> string \<Rightarrow> string option \<Rightarrow> chain_state \<Rightarrow> chain_state computed" where
  "update_scene update_ok promptNumber prompt_text selected cs =
     (case newClip (initialClips cs) selected prompt_text of
        Throws_TypeError \<Rightarrow> Throws_TypeError
      | Exponential_notation \<Rightarrow> Exponential_notation
      | Value c \<Rightarrow>
          (let updatedClips = initialClips cs @ [c] in
           if update_ok then Value (cs \<lparr> initialClips := updatedClips, lastClipId := selected \<rparr>)
           else Value (record_error promptNumber prompt_text Update_scene_failed cs)))"

text \<open>
  \<^verbatim>\<open>
  if (!pollDone || !selectedMediaId) {
    errorPrompts.push({ ..., error: 'Timeout poll video' }); await sendTelegram(...); continue;
  }
  \<close>
  and then the downloads and the scene update.
\<close>

definition after_polling :: "prompt_env \<Rightarrow> nat \<Rightarrow> string \<Rightarrow> poll_state \<Rightarrow> chain_state \<Rightarrow> chain_state computed" where
  "after_polling env promptNumber prompt_text ps cs =
     (if \<not> pollDone ps \<or> \<not> truthy (selectedMediaId ps)
      then Value (record_error promptNumber prompt_text Poll_timeout cs)
      else update_scene (pe_update_ok env) promptNumber prompt_text (selectedMediaId ps)
             (download_videos (pe_download_ok env) promptNumber prompt_text (videoUrls ps) cs))"

text \<open>
  The body of the \<^verbatim>\<open>for\<close> loop over the prompts. A prompt is a new one when its lower
  case text includes \<^verbatim>\<open>(new)\<close>; for any other, \<^verbatim>\<open>lastClipId.substring\<close> throws when
  there is no last clip id. A generate request that throws is recorded; a reply without
  operations only skips the prompt.
\<close>

definition run_prompt :: "prompt_env \<Rightarrow> nat \<Rightarrow> string \<Rightarrow> chain_state \<Rightarrow> chain_state computed" where
  "run_prompt env promptNumber prompt_text cs =
     (if \<not> str_includes (toLowerCase prompt_text) ''(new)'' \<and> lastClipId cs = None
      then Throws_TypeError
      else
        (case pe_generate env of
           Gen_throws \<Rightarrow> Value (record_error promptNumber prompt_text Generate_request_failed cs)
         | Gen_no_operations \<Rightarrow> Value cs
         | Gen_operations ops \<Rightarrow>
             after_polling env promptNumber prompt_text (poll_job (pe_status env) ops) cs))"

text \<open>
  \<^verbatim>\<open>for (let promptIndex = 0; promptIndex < prompts.length; promptIndex++)\<close>, with
  \<^verbatim>\<open>promptNumber = promptIndex + 2\<close>.
\<close>

fun run_prompts :: "nat \<Rightarrow> (prompt_env \<times> string) list \<Rightarrow> chain_state \<Rightarrow> chain_state computed" where
  "run_prompts promptIndex [] cs = Value cs"
| "run_prompts promptIndex ((env, prompt_text) # rest) cs =
     (case run_prompt env (promptIndex + 2) prompt_text cs of
        Value cs' \<Rightarrow> run_prompts (promptIndex + 1) rest cs'
      | Throws_TypeError \<Rightarrow> Throws_TypeError
      | Exponential_notation \<Rightarrow> Exponential_notation)"

section \<open>Polling one operation (video-veo3.js, lines 346-410)\<close>

text \<open>
  What \<^verbatim>\<open>api.checkStatus\<close> gives: it throws, or it returns the JSON of the backend.
  \<open>so_message\<close> is \<^verbatim>\<open>op.operation?.error?.message\<close>.
\<close>

record status_op =
  so_status :: "string option"
  so_message :: "string option"

record check_status_result =
  cs_success :: bool
  cs_tokenExpired :: bool
  cs_operations :: "status_op list option"

datatype status_reply = Status_throws | Status_json check_status_result

datatype poll_error =
    Request_failed
  | Token_expired
  | Invalid_status_payload
  | Generation_failed string
  | Timeout_polling_status

text \<open>
  \<^verbatim>\<open>
  for (let i = 0; i < maxTries; i++) {
    const res = await api.checkStatus({...});
    if (!res.success && res.tokenExpired) { ...; throw new Error("Token expired - please refresh"); }
    const op = res?.operations?.[0];
    if (!op) { throw new Error("Invalid status payload"); }
    if (op.status === "SUCCESSFUL" || op.status === "MEDIA_GENERATION_STATUS_SUCCESSFUL") return op;
    if (op.status === "FAILED" || op.status === "MEDIA_GENERATION_STATUS_FAILED") {
      const errorMsg = op.operation?.error?.message || '';
      if (errorMsg.includes('HIGH_TRAFFIC')) { await sleep(intervalMs * 2); continue; }
      throw new Error(`Generation failed: ${errorMsg || JSON.stringify(op)}`);
    }
    await sleep(intervalMs);
  }
  throw new Error("Timeout polling status");
  \<close>
  The result is what is returned or thrown, with the sleeps so far (oldest first).
\<close>

function pollOperation_from ::
  "(nat \<Rightarrow> status_reply) \<Rightarrow> nat \<Rightarrow> nat \<Rightarrow> nat \<Rightarrow> nat list \<Rightarrow> (poll_error + status_op) \<times> nat list" where
  "pollOperation_from replies intervalMs maxTries i sleeps =
     (if i < maxTries then
        (case replies i of
           Status_throws \<Rightarrow> (Inl Request_failed, sleeps)
         | Status_json res \<Rightarrow>
             if \<not> cs_success res \<and> cs_tokenExpired res then (Inl Token_expired, sleeps)
             else
               (case (case cs_operations res of None \<Rightarrow> None | Some [] \<Rightarrow> None | Some (op # _) \<Rightarrow> Some op) of
                  None \<Rightarrow> (Inl Invalid_status_payload, sleeps)
                | Some op \<Rightarrow>
                    if so_status op = Some ''SUCCESSFUL''
                       \<or> so_status op = Some ''MEDIA_GENERATION_STATUS_SUCCESSFUL''
                    then (Inr op, sleeps)
                    else if so_status op = Some ''FAILED''
                            \<or> so_status op = Some ''MEDIA_GENERATION_STATUS_FAILED''
                    then
                      (let errorMsg = (case so_message op of None \<Rightarrow> [] | Some m \<Rightarrow> m) in
                       if str_includes errorMsg ''HIGH_TRAFFIC''
                       then pollOperation_from replies intervalMs maxTries (i + 1)
                              (sleeps @ [intervalMs * 2])
                       else (Inl (Generation_failed errorMsg), sleeps))
                    else pollOperation_from replies intervalMs maxTries (i + 1)
                           (sleeps @ [intervalMs])))
      else (Inl Timeout_polling_status, sleeps))"
  by pat_completeness auto
termination
  by (relation "measure (\<lambda>(replies, intervalMs, maxTries, i, sleeps). maxTries - i)") auto

declare pollOperation_from.simps [simp del]

text \<open>\<^verbatim>\<open>pollOperation(opId, { intervalMs = 2500, maxTries = 120 })\<close>.\<close>

definition pollOperation ::
  "(nat \<Rightarrow> status_reply) \<Rightarrow> nat \<Rightarrow> nat \<Rightarrow> (poll_error + status_op) \<times> nat list" where
  "pollOperation replies intervalMs maxTries = pollOperation_from replies intervalMs maxTries 0 []"

definition pollOperation_default :: "(nat \<Rightarrow> status_reply) \<Rightarrow> (poll_error + status_op) \<times> nat list" where
  "pollOperation_default replies = pollOperation replies 2500 120"

section \<open>Notions the statements use\<close>

text \<open>
  The number of operations of a status reply that are SUCCESSFUL or FAILED, and a reply
  whose count reaches the number of variants.
\<close>

definition completed_count :: "poll_op list \<Rightarrow> nat" where
  "completed_count ops =
     length (filter (\<lambda>op. po_status op = ''MEDIA_GENERATION_STATUS_SUCCESSFUL''
                          \<or> po_status op = ''MEDIA_GENERATION_STATUS_FAILED'') ops)"

definition completes :: "poll_reply \<Rightarrow> nat \<Rightarrow> bool" where
  "completes reply totalVariants \<longleftrightarrow>
     (case reply of
        Poll_data (Some ops) \<Rightarrow> totalVariants \<le> completed_count ops
      | _ \<Rightarrow> False)"

text \<open>A SUCCESSFUL operation that carries a media id.\<close>

definition successful_with_id :: "poll_op \<Rightarrow> bool" where
  "successful_with_id op \<longleftrightarrow>
     po_status op = ''MEDIA_GENERATION_STATUS_SUCCESSFUL'' \<and> truthy (mediaGenerationId op)"

text \<open>
  A status reply to \<^verbatim>\<open>pollOperation\<close> whose first operation is FAILED with a message
  that includes \<^verbatim>\<open>HIGH_TRAFFIC\<close>, and one whose first operation is SUCCESSFUL.
\<close>

definition first_op :: "status_reply \<Rightarrow> status_op option" where
  "first_op reply =
     (case reply of
        Status_throws \<Rightarrow> None
      | Status_json res \<Rightarrow>
          if \<not> cs_success res \<and> cs_tokenExpired res then None
          else (case cs_operations res of None \<Rightarrow> None | Some [] \<Rightarrow> None | Some (op # _) \<Rightarrow> Some op))"

definition high_traffic_failure :: "status_reply \<Rightarrow> bool" where
  "high_traffic_failure reply \<longleftrightarrow>
     (case first_op reply of
        None \<Rightarrow> False
      | Some op \<Rightarrow>
          (so_status op = Some ''FAILED'' \<or> so_status op = Some ''MEDIA_GENERATION_STATUS_FAILED'')
          \<and> (case so_message op of None \<Rightarrow> False | Some m \<Rightarrow> str_includes m ''HIGH_TRAFFIC''))"

definition successful_reply :: "status_reply \<Rightarrow> bool" where
  "successful_reply reply \<longleftrightarrow>
     (case first_op reply of
        None \<Rightarrow> False
      | Some op \<Rightarrow> so_status op = Some ''SUCCESSFUL''
                   \<or> so_status op = Some ''MEDIA_GENERATION_STATUS_SUCCESSFUL'')"

text \<open>
  A time of \<open>n\<close> nanoseconds written as the claims word it: the seconds in decimal, a
  point, nine fractional digits and the suffix \<^verbatim>\<open>s\<close>.
\<close>

fun last_digits :: "nat \<Rightarrow> nat \<Rightarrow> string" where
  "last_digits 0 b = []"
| "last_digits (Suc k) b = last_digits k (b div 10) @ [digit_char (b mod 10)]"

definition decimal_seconds :: "nat \<Rightarrow> string" where
  "decimal_seconds n = digits_of (n div 10 ^ 9) @ ''.'' @ last_digits 9 (n mod 10 ^ 9) @ ''s''"

section \<open>Concrete inputs\<close>

text \<open>Two lanes and an empty pool.\<close>

definition lane_A :: token where
  "lane_A = \<lparr> name = ''A'', cookies = Some ''ca'', sessionToken = Some ''sa'',
              accessToken = None, authorization = Some ''Bearer a'', proxy = None,
              projectId = None, sceneId = None \<rparr>"

definition lane_B :: token where
  "lane_B = \<lparr> name = ''B'', cookies = Some ''cb'', sessionToken = Some ''sb'',
              accessToken = None, authorization = None, proxy = Some ''1.2.3.4:80'',
              projectId = None, sceneId = None \<rparr>"

definition empty_pool :: pool_state where
  "empty_pool = \<lparr> tokenPool = [], currentTokenIndex = 0,
                  the_session = \<lparr> s_cookies = None, s_sessionToken = None, s_accessToken = None \<rparr> \<rparr>"

text \<open>A provider that answers every attempt with 429, without and with \<^verbatim>\<open>Retry-After\<close>.\<close>

definition always_429 :: "nat \<Rightarrow> axios_result" where
  "always_429 k = Rejected (HttpError \<lparr> status = 429, data = ''Too Many Requests'', retry_after = None \<rparr>)"


text \<open>A provider that answers 429 once and then 403, and one that answers 500 at once.\<close>

definition forbidden :: response where
  "forbidden = \<lparr> status = 403, data = ''PERMISSION_DENIED'', retry_after = None \<rparr>"

definition then_403 :: "nat \<Rightarrow> axios_result" where
  "then_403 k = (if k = 0 then always_429 k else Rejected (HttpError forbidden))"

definition internal_error :: response where
  "internal_error = \<lparr> status = 500, data = ''INTERNAL'', retry_after = None \<rparr>"

definition always_500 :: "nat \<Rightarrow> axios_result" where
  "always_500 k = Rejected (HttpError internal_error)"

definition no_stats :: rate_limit_stats where
  "no_stats = \<lparr> totalRequests = 0, rateLimitedRequests = 0, retriedRequests = 0,
                failedAfterRetry = 0, lastRateLimitTime = None, tokenUsageByAccount = Map.empty \<rparr>"

text \<open>
  A request through the round-robin pool, a stand-in for the digest that tells requests
  apart by their prompt, a server that has just started, and a provider that fails.
\<close>

definition sample_request :: start_end_request where
  "sample_request = \<lparr> req_projectId = Some ''p1'', req_sceneId = Some ''s1'',
       startImageMediaId = Some ''m1'', endImageMediaId = Some ''m2'',
       prompt = Some ''a cat'', aspectRatio = Some ''VIDEO_ASPECT_RATIO_LANDSCAPE'',
       seeds = Some [7], tokenName = None \<rparr>"

definition prompt_digest :: "start_end_request \<Rightarrow> string" where
  "prompt_digest req = (case prompt req of None \<Rightarrow> [] | Some p \<Rightarrow> p)"

definition fresh_server :: server_state where
  "fresh_server = \<lparr> recentRequests = Map.empty,
       pool = \<lparr> tokenPool = [lane_A, lane_B], currentTokenIndex = 0,
                the_session = \<lparr> s_cookies = None, s_sessionToken = None, s_accessToken = None \<rparr> \<rparr>,
       rateLimitStats = no_stats \<rparr>"

definition failing_provider :: "int \<Rightarrow> handler_env" where
  "failing_provider t = \<lparr> env_now = t, env_now_request = t + 5,
       env_file_tokens = Some [lane_A, lane_B], env_access_token = None,
       env_axios = always_500, env_operations = (\<lambda>body. None) \<rparr>"

text \<open>
  A job of one variant, and status replies for it: PENDING, then ACTIVE, then SUCCESSFUL;
  PENDING for ever; and a FAILED operation twice, its message naming HIGH_TRAFFIC, before
  the SUCCESSFUL one.
\<close>

definition one_handle :: result_op where
  "one_handle = \<lparr> ro_name = Some ''operations/1'', ro_sceneId = Some ''s1'',
                  ro_status = Some ''MEDIA_GENERATION_STATUS_PENDING'' \<rparr>"

definition op_in_state :: "string \<Rightarrow> poll_op" where
  "op_in_state s = \<lparr> po_status = s, mediaGenerationId = None,
       po_operation = Some \<lparr> h_name = Some ''operations/1'', h_fifeUrl = None \<rparr>,
       po_sceneId = Some ''s1'', po_message = None \<rparr>"

definition successful_op :: "string \<Rightarrow> string \<Rightarrow> poll_op" where
  "successful_op media url = \<lparr> po_status = ''MEDIA_GENERATION_STATUS_SUCCESSFUL'',
       mediaGenerationId = Some media,
       po_operation = Some \<lparr> h_name = Some ''operations/1'', h_fifeUrl = Some url \<rparr>,
       po_sceneId = Some ''s1'', po_message = None \<rparr>"

definition high_traffic_op :: poll_op where
  "high_traffic_op = (op_in_state ''MEDIA_GENERATION_STATUS_FAILED'')
       \<lparr> po_message := Some ''PUBLIC_ERROR_HIGH_TRAFFIC'' \<rparr>"

definition pending_active_successful :: "nat \<Rightarrow> poll_reply" where
  "pending_active_successful k =
     (if k = 0 then Poll_data (Some [op_in_state ''MEDIA_GENERATION_STATUS_PENDING''])
      else if k = 1 then Poll_data (Some [op_in_state ''MEDIA_GENERATION_STATUS_ACTIVE''])
      else Poll_data (Some [successful_op ''media-1'' ''https://video/1'']))"

definition always_pending :: "nat \<Rightarrow> poll_reply" where
  "always_pending k = Poll_data (Some [op_in_state ''MEDIA_GENERATION_STATUS_PENDING''])"

definition high_traffic_twice :: "nat \<Rightarrow> poll_reply" where
  "high_traffic_twice k =
     (if k < 2 then Poll_data (Some [high_traffic_op])
      else Poll_data (Some [successful_op ''media-1'' ''https://video/1'']))"

text \<open>A chain with one clip, and a provider for one prompt.\<close>

definition first_clip :: clip where
  "first_clip = \<lparr> clipId = Some ''media-0'', startTime = Some ''0s'',
                  endTime = Some ''7.000000001s'', clip_prompt = Some ''a dog'' \<rparr>"

definition one_clip_chain :: chain_state where
  "one_clip_chain = \<lparr> initialClips = [first_clip], lastClipId = Some ''media-0'',
                      successCount = 0, errorPrompts = [] \<rparr>"

definition provider :: "(nat \<Rightarrow> poll_reply) \<Rightarrow> bool \<Rightarrow> prompt_env" where
  "provider replies update_ok = \<lparr> pe_generate = Gen_operations [one_handle], pe_status = replies,
       pe_download_ok = (\<lambda>i. True), pe_update_ok = update_ok \<rparr>"

text \<open>
  Replies to \<^verbatim>\<open>pollOperation\<close>: the operation FAILED with a HIGH_TRAFFIC message, the
  operation SUCCESSFUL, and the sequence of two of the first and then the second.
\<close>

definition high_traffic_status :: status_op where
  "high_traffic_status = \<lparr> so_status = Some ''MEDIA_GENERATION_STATUS_FAILED'',
                           so_message = Some ''PUBLIC_ERROR_HIGH_TRAFFIC'' \<rparr>"

definition successful_status :: status_op where
  "successful_status = \<lparr> so_status = Some ''MEDIA_GENERATION_STATUS_SUCCESSFUL'', so_message = None \<rparr>"

definition status_of :: "status_op \<Rightarrow> status_reply" where
  "status_of op = Status_json \<lparr> cs_success = True, cs_tokenExpired = False, cs_operations = Some [op] \<rparr>"

definition high_traffic_then_success :: "nat \<Rightarrow> status_reply" where
  "high_traffic_then_success k = (if k < 2 then status_of high_traffic_status else status_of successful_status)"

definition always_high_traffic :: "nat \<Rightarrow> status_reply" where
  "always_high_traffic k = status_of high_traffic_status"

text \<open>A scene whose last clip ends after \<open>2^23\<close> seconds.\<close>

definition long_scene :: "clip list" where
  "long_scene = [\<lparr> clipId = Some ''media-0'', startTime = Some ''8388601s'',
                   endTime = Some ''8388608s'', clip_prompt = Some ''a dog'' \<rparr>]"

text \<open>The clip that follows \<open>first_clip\<close>, for the media id \<^verbatim>\<open>media-1\<close> and the prompt \<^verbatim>\<open>a cat\<close>.\<close>

definition second_clip :: clip where
  "second_clip = \<lparr> clipId = Some ''media-1'', startTime = Some ''7.000000002s'',
                   endTime = Some ''14.000000002s'', clip_prompt = Some ''a cat'' \<rparr>"


text \<open>
  Status replies that report the operation SUCCESSFUL at the first request, and the clip
  that follows \<open>first_clip\<close> for the media id \<^verbatim>\<open>media-2\<close> and the prompt \<^verbatim>\<open>a fox\<close>.
\<close>

definition succeeds_at_once :: "string \<Rightarrow> string \<Rightarrow> nat \<Rightarrow> poll_reply" where
  "succeeds_at_once media url k = Poll_data (Some [successful_op media url])"

definition fox_clip :: clip where
  "fox_clip = \<lparr> clipId = Some ''media-2'', startTime = Some ''7.000000002s'',
                endTime = Some ''14.000000002s'', clip_prompt = Some ''a fox'' \<rparr>"

section \<open>Round-robin selection\<close>

lemma getNextToken_in_range:
  assumes "currentTokenIndex st < length (tokenPool st)"
  shows "getNextToken st =
           (Some (tokenPool st ! currentTokenIndex st),
            st \<lparr> currentTokenIndex := (currentTokenIndex st + 1) mod length (tokenPool st) \<rparr>)"
  using assms by (cases "tokenPool st") (simp_all add: getNextToken_def)

lemma next_calls_pool [simp]: "tokenPool (snd (next_calls k st)) = tokenPool st"
  by (induction k arbitrary: st) (simp_all add: getNextToken_def case_prod_beta)

lemma next_calls_length [simp]: "length (fst (next_calls k st)) = k"
  by (induction k arbitrary: st) (simp_all add: case_prod_beta)

lemma next_calls_nth:
  assumes "currentTokenIndex st < length (tokenPool st)" and "i < k"
  shows "fst (next_calls k st) ! i =
           Some (tokenPool st ! ((currentTokenIndex st + i) mod length (tokenPool st)))"
  using assms
proof (induction k arbitrary: st i)
  case 0
  then show ?case by simp
next
  case (Suc k)
  let ?n = "length (tokenPool st)"
  let ?st' = "st \<lparr> currentTokenIndex := (currentTokenIndex st + 1) mod ?n \<rparr>"
  have step: "getNextToken st = (Some (tokenPool st ! currentTokenIndex st), ?st')"
    using Suc.prems(1) by (rule getNextToken_in_range)
  have pos: "0 < ?n" using Suc.prems(1) by (cases "tokenPool st") simp_all
  show ?case
  proof (cases i)
    case 0
    with step Suc.prems(1) show ?thesis by (simp add: case_prod_beta)
  next
    case (Suc j)
    have inr: "currentTokenIndex ?st' < length (tokenPool ?st')" using pos by simp
    have "j < k" using Suc Suc.prems(2) by simp
    from Suc.IH [OF inr this]
    have "fst (next_calls k ?st') ! j =
            Some (tokenPool st ! (((currentTokenIndex st + 1) mod ?n + j) mod ?n))" by simp
    moreover have "((currentTokenIndex st + 1) mod ?n + j) mod ?n = (currentTokenIndex st + i) mod ?n"
      using Suc by (simp add: mod_add_left_eq)
    ultimately show ?thesis using step Suc by (simp add: case_prod_beta)
  qed
qed

lemma next_calls_cursor:
  assumes "currentTokenIndex st < length (tokenPool st)"
  shows "currentTokenIndex (snd (next_calls k st)) =
           (currentTokenIndex st + k) mod length (tokenPool st)"
  using assms
proof (induction k arbitrary: st)
  case 0
  then show ?case by simp
next
  case (Suc k)
  let ?n = "length (tokenPool st)"
  let ?st' = "st \<lparr> currentTokenIndex := (currentTokenIndex st + 1) mod ?n \<rparr>"
  have step: "getNextToken st = (Some (tokenPool st ! currentTokenIndex st), ?st')"
    using Suc.prems by (rule getNextToken_in_range)
  have pos: "0 < ?n" using Suc.prems by (cases "tokenPool st") simp_all
  have inr: "currentTokenIndex ?st' < length (tokenPool ?st')" using pos by simp
  have "currentTokenIndex (snd (next_calls k ?st')) =
          ((currentTokenIndex st + 1) mod ?n + k) mod ?n"
    using Suc.IH [OF inr] by simp
  also have "\<dots> = (currentTokenIndex st + Suc k) mod ?n"
    by (simp add: mod_add_left_eq)
  finally show ?case using step by (simp add: case_prod_beta)
qed


text \<open>
  C4. A pool loaded by \<^verbatim>\<open>/api/load-token-pool\<close> holds \<open>N > 0\<close> credentials and has its
  cursor at 0. Then \<open>N\<close> calls of \<^verbatim>\<open>getNextToken\<close> return the credentials of the pool,
  each once, in insertion order; call \<open>N + 1\<close> returns the first credential again; and in
  every state reached by such calls a call returns \<open>tokenPool[currentTokenIndex]\<close> and
  moves the cursor to \<open>(currentTokenIndex + 1) mod N\<close>.
\<close>

theorem round_robin_fairness:
  assumes "load_pool_entries allTokens tokenNames \<noteq> []"
  shows "fst (next_calls (length (load_pool_entries allTokens tokenNames))
                (load_token_pool allTokens tokenNames st0))
           = map Some (load_pool_entries allTokens tokenNames)
       \<and> fst (next_calls (length (load_pool_entries allTokens tokenNames) + 1)
                (load_token_pool allTokens tokenNames st0))
           = map Some (load_pool_entries allTokens tokenNames)
             @ [Some (load_pool_entries allTokens tokenNames ! 0)]
       \<and> (\<forall>k. getNextToken (snd (next_calls k (load_token_pool allTokens tokenNames st0)))
              = (Some (load_pool_entries allTokens tokenNames
                         ! currentTokenIndex (snd (next_calls k (load_token_pool allTokens tokenNames st0)))),
                 (snd (next_calls k (load_token_pool allTokens tokenNames st0)))
                   \<lparr> currentTokenIndex :=
                       (currentTokenIndex (snd (next_calls k (load_token_pool allTokens tokenNames st0))) + 1)
                       mod length (load_pool_entries allTokens tokenNames) \<rparr>))"
proof -
  let ?pool = "load_pool_entries allTokens tokenNames"
  let ?st = "load_token_pool allTokens tokenNames st0"
  let ?N = "length ?pool"
  have pool: "tokenPool ?st = ?pool" and cur: "currentTokenIndex ?st = 0"
    by (simp_all add: load_token_pool_def)
  have pos: "0 < ?N" using assms by simp
  have inr: "currentTokenIndex ?st < length (tokenPool ?st)"
    using pos by (simp add: pool cur)
  have nth: "fst (next_calls k ?st) ! i = Some (?pool ! (i mod ?N))" if "i < k" for i k
    using next_calls_nth [OF inr that] by (simp add: pool cur)
  have first: "fst (next_calls ?N ?st) = map Some ?pool"
    by (rule nth_equalityI) (simp_all add: nth)
  have second: "fst (next_calls (?N + 1) ?st) = map Some ?pool @ [Some (?pool ! 0)]"
  proof (rule nth_equalityI)
    show "length (fst (next_calls (?N + 1) ?st)) = length (map Some ?pool @ [Some (?pool ! 0)])"
      by (simp del: next_calls.simps)
  next
    fix i assume "i < length (fst (next_calls (?N + 1) ?st))"
    then have i: "i < ?N + 1" by (simp del: next_calls.simps)
    show "fst (next_calls (?N + 1) ?st) ! i = (map Some ?pool @ [Some (?pool ! 0)]) ! i"
    proof (cases "i < ?N")
      case True
      then show ?thesis using nth [OF i] by (simp add: nth_append del: next_calls.simps)
    next
      case False
      with i have "i = ?N" by simp
      then show ?thesis using nth [OF i] by (simp add: nth_append del: next_calls.simps)
    qed
  qed
  have third: "getNextToken (snd (next_calls k ?st))
                 = (Some (?pool ! currentTokenIndex (snd (next_calls k ?st))),
                    (snd (next_calls k ?st))
                      \<lparr> currentTokenIndex := (currentTokenIndex (snd (next_calls k ?st)) + 1) mod ?N \<rparr>)"
    for k
  proof -
    have "currentTokenIndex (snd (next_calls k ?st)) = k mod ?N"
      using next_calls_cursor [OF inr, of k] by (simp add: pool cur)
    then have "currentTokenIndex (snd (next_calls k ?st)) < length (tokenPool (snd (next_calls k ?st)))"
      using pos by (simp add: pool)
    from getNextToken_in_range [OF this] show ?thesis by (simp add: pool)
  qed
  from first second third show ?thesis by blast
qed

lemma lane_names: "name lane_A = ''A''" "name lane_B = ''B''"
  by (simp_all add: lane_A_def lane_B_def)

lemma poolToken_lanes: "poolToken lane_A = lane_A" "poolToken lane_B = lane_B"
  by (simp_all add: lane_A_def lane_B_def poolToken_def)

lemma load_AB: "load_pool_entries [lane_A, lane_B] [''A'', ''B''] = [lane_A, lane_B]"
  by (simp add: lane_names poolToken_lanes)

theorem round_robin_fairness_witness:
  "load_pool_entries [lane_A, lane_B] [''A'', ''B''] \<noteq> []
   \<and> fst (next_calls 2 (load_token_pool [lane_A, lane_B] [''A'', ''B''] empty_pool))
       = [Some lane_A, Some lane_B]
   \<and> fst (next_calls 3 (load_token_pool [lane_A, lane_B] [''A'', ''B''] empty_pool))
       = [Some lane_A, Some lane_B, Some lane_A]"
proof -
  have h: "load_pool_entries [lane_A, lane_B] [''A'', ''B''] \<noteq> []"
    unfolding load_AB by simp
  have two: "length [lane_A, lane_B] = 2" and three: "length [lane_A, lane_B] + 1 = 3"
    by simp_all
  from round_robin_fairness [OF h, of empty_pool] h show ?thesis
    unfolding load_AB two three by simp
qed

section \<open>Deduplication window\<close>

lemma purge_old_keeps:
  "purge_old now m h = Some t \<longleftrightarrow> m h = Some t \<and> now - t \<le> 3000"
  by (auto simp: purge_old_def REQUEST_DEDUP_WINDOW_MS_def split: option.splits)

lemma purge_old_drops:
  "purge_old now m h = None \<longleftrightarrow> (m h = None \<or> (\<exists>t. m h = Some t \<and> now - t > 3000))"
  by (auto simp: purge_old_def REQUEST_DEDUP_WINDOW_MS_def split: option.splits)

lemma isDuplicateRequest_accepted:
  "fst (isDuplicateRequest now h m) = False \<Longrightarrow> snd (isDuplicateRequest now h m) h = Some now"
  by (simp add: isDuplicateRequest_def Let_def split: if_splits)

text \<open>
  C5. \<^verbatim>\<open>isDuplicateRequest\<close> first drops every entry older than 3000 ms. If the
  fingerprint is still there, it answers duplicate and leaves the stored timestamp as it
  was; otherwise it stores the fingerprint with the current time and answers
  not-duplicate. So a payload accepted at \<open>t1\<close> is rejected at any \<open>t2\<close> with
  \<open>t2 - t1 \<le> 3000\<close> and accepted again at any \<open>t2\<close> with \<open>t2 - t1 > 3000\<close>.
\<close>

theorem dedup_window:
  "(\<forall>k t. m k = Some t \<longrightarrow> t1 - t > 3000 \<longrightarrow> k \<noteq> h
        \<longrightarrow> snd (isDuplicateRequest t1 h m) k = None)
   \<and> (\<forall>t. m h = Some t \<longrightarrow> t1 - t \<le> 3000
        \<longrightarrow> isDuplicateRequest t1 h m = (True, purge_old t1 m)
            \<and> snd (isDuplicateRequest t1 h m) h = Some t)
   \<and> ((m h = None \<or> (\<exists>t. m h = Some t \<and> t1 - t > 3000))
        \<longrightarrow> isDuplicateRequest t1 h m = (False, (purge_old t1 m)(h \<mapsto> t1)))
   \<and> (fst (isDuplicateRequest t1 h m) = False \<longrightarrow> t2 - t1 \<le> 3000
        \<longrightarrow> fst (isDuplicateRequest t2 h (snd (isDuplicateRequest t1 h m))) = True)
   \<and> (fst (isDuplicateRequest t1 h m) = False \<longrightarrow> t2 - t1 > 3000
        \<longrightarrow> fst (isDuplicateRequest t2 h (snd (isDuplicateRequest t1 h m))) = False)"
proof -
  have purge: "snd (isDuplicateRequest t1 h m) k = None"
    if "m k = Some t" "t1 - t > 3000" "k \<noteq> h" for k t
  proof -
    have "purge_old t1 m k = None" using that by (auto simp: purge_old_drops)
    then show ?thesis using that(3) by (simp add: isDuplicateRequest_def Let_def)
  qed
  have dup: "isDuplicateRequest t1 h m = (True, purge_old t1 m)
             \<and> snd (isDuplicateRequest t1 h m) h = Some t"
    if "m h = Some t" "t1 - t \<le> 3000" for t
  proof -
    have "purge_old t1 m h = Some t" using that by (simp add: purge_old_keeps)
    then show ?thesis by (simp add: isDuplicateRequest_def Let_def)
  qed
  have fresh: "isDuplicateRequest t1 h m = (False, (purge_old t1 m)(h \<mapsto> t1))"
    if "m h = None \<or> (\<exists>t. m h = Some t \<and> t1 - t > 3000)"
  proof -
    have "purge_old t1 m h = None" using that by (simp add: purge_old_drops)
    then show ?thesis by (simp add: isDuplicateRequest_def Let_def)
  qed
  have again: "fst (isDuplicateRequest t2 h (snd (isDuplicateRequest t1 h m))) = True"
    if "fst (isDuplicateRequest t1 h m) = False" "t2 - t1 \<le> 3000"
  proof -
    have "snd (isDuplicateRequest t1 h m) h = Some t1"
      using that(1) by (rule isDuplicateRequest_accepted)
    then have "purge_old t2 (snd (isDuplicateRequest t1 h m)) h = Some t1"
      using that(2) by (simp add: purge_old_keeps)
    then show ?thesis by (simp add: isDuplicateRequest_def [of t2] Let_def)
  qed
  have later: "fst (isDuplicateRequest t2 h (snd (isDuplicateRequest t1 h m))) = False"
    if "fst (isDuplicateRequest t1 h m) = False" "t2 - t1 > 3000"
  proof -
    have "snd (isDuplicateRequest t1 h m) h = Some t1"
      using that(1) by (rule isDuplicateRequest_accepted)
    then have "purge_old t2 (snd (isDuplicateRequest t1 h m)) h = None"
      using that(2) by (simp add: purge_old_drops)
    then show ?thesis by (simp add: isDuplicateRequest_def [of t2] Let_def)
  qed
  from purge dup fresh again later show ?thesis by blast
qed


theorem dedup_window_witness:
  "fst (isDuplicateRequest 5000 ''h'' (Map.empty(''old'' \<mapsto> 0))) = False
   \<and> snd (isDuplicateRequest 5000 ''h'' (Map.empty(''old'' \<mapsto> 0))) ''old'' = None
   \<and> isDuplicateRequest 5000 ''h'' (Map.empty(''old'' \<mapsto> 0))
       = (False, (purge_old 5000 (Map.empty(''old'' \<mapsto> 0)))(''h'' \<mapsto> 5000))
   \<and> fst (isDuplicateRequest 8000 ''h''
            (snd (isDuplicateRequest 5000 ''h'' (Map.empty(''old'' \<mapsto> 0))))) = True
   \<and> fst (isDuplicateRequest 8001 ''h''
            (snd (isDuplicateRequest 5000 ''h'' (Map.empty(''old'' \<mapsto> 0))))) = False
   \<and> isDuplicateRequest 5000 ''h'' (Map.empty(''h'' \<mapsto> 4000))
       = (True, purge_old 5000 (Map.empty(''h'' \<mapsto> 4000)))
   \<and> snd (isDuplicateRequest 5000 ''h'' (Map.empty(''h'' \<mapsto> 4000))) ''h'' = Some 4000"
proof -
  let ?m = "Map.empty(''old'' \<mapsto> (0::int))"
  let ?m2 = "Map.empty(''h'' \<mapsto> (4000::int))"
  have old: "?m ''old'' = Some 0" "(5000::int) - 0 > 3000" "''old'' \<noteq> ''h''"
    by simp_all
  have none: "?m ''h'' = None" by simp
  have acc: "fst (isDuplicateRequest 5000 ''h'' ?m) = False"
    by (simp add: isDuplicateRequest_def purge_old_def Let_def)
  have near: "(8000::int) - 5000 \<le> 3000" and far: "(8001::int) - 5000 > 3000" by simp_all
  have there: "?m2 ''h'' = Some 4000" "(5000::int) - 4000 \<le> 3000" by simp_all
  from dedup_window [of ?m 5000 "''h''" 8000] dedup_window [of ?m 5000 "''h''" 8001]
       dedup_window [of ?m2 5000 "''h''" 0] old none acc near far there
  show ?thesis by blast
qed

section \<open>Retry on rate limiting\<close>

lemma track_rate_limit_failed [simp]:
  "failedAfterRetry (track_rate_limit now retryCount accountName st) = failedAfterRetry st"
  by (simp add: track_rate_limit_def Let_def)

lemma rate_limited_iff:
  "rate_limited res \<longleftrightarrow> (\<exists>r. res = Rejected (HttpError r) \<and> status r = 429)"
  by (auto simp: rate_limited_def split: axios_result.splits axios_error.splits)

text \<open>One attempt of the executor, case by case.\<close>

lemma axiosWithRetry_resolved:
  "axios retryCount = Resolved r \<Longrightarrow>
   axiosWithRetry axios now retryCount maxRetries accountName st =
     (Inr r, [], if retryCount = 0 then st \<lparr> totalRequests := totalRequests st + 1 \<rparr> else st)"
  by (subst axiosWithRetry.simps) (simp add: Let_def)

lemma axiosWithRetry_network:
  "axios retryCount = Rejected (NetworkError e) \<Longrightarrow>
   axiosWithRetry axios now retryCount maxRetries accountName st =
     (Inl (Propagated (NetworkError e)), [],
      if retryCount = 0 then st \<lparr> totalRequests := totalRequests st + 1 \<rparr> else st)"
  by (subst axiosWithRetry.simps) (simp add: Let_def)

lemma axiosWithRetry_other_status:
  "axios retryCount = Rejected (HttpError r) \<Longrightarrow> status r \<noteq> 429 \<Longrightarrow>
   axiosWithRetry axios now retryCount maxRetries accountName st =
     (Inl (Propagated (HttpError r)), [],
      if retryCount = 0 then st \<lparr> totalRequests := totalRequests st + 1 \<rparr> else st)"
  by (subst axiosWithRetry.simps) (simp add: Let_def)

lemma axiosWithRetry_retry:
  "axios retryCount = Rejected (HttpError r) \<Longrightarrow> status r = 429 \<Longrightarrow> retryCount < maxRetries \<Longrightarrow>
   axiosWithRetry axios now retryCount maxRetries accountName st =
     (case axiosWithRetry axios now (retryCount + 1) maxRetries accountName
             (track_rate_limit now retryCount accountName
                (if retryCount = 0 then st \<lparr> totalRequests := totalRequests st + 1 \<rparr> else st)) of
        (res, waits, st3) \<Rightarrow> (res, waitMs (retry_after r) retryCount # waits, st3))"
  by (subst axiosWithRetry.simps) (simp add: Let_def)

lemma axiosWithRetry_give_up:
  "axios retryCount = Rejected (HttpError r) \<Longrightarrow> status r = 429 \<Longrightarrow> \<not> retryCount < maxRetries \<Longrightarrow>
   axiosWithRetry axios now retryCount maxRetries accountName st =
     (Inl (RateLimitExceeded maxRetries), [],
      (track_rate_limit now retryCount accountName
         (if retryCount = 0 then st \<lparr> totalRequests := totalRequests st + 1 \<rparr> else st))
        \<lparr> failedAfterRetry :=
            failedAfterRetry (track_rate_limit now retryCount accountName
              (if retryCount = 0 then st \<lparr> totalRequests := totalRequests st + 1 \<rparr> else st)) + 1 \<rparr>)"
  by (subst axiosWithRetry.simps) (simp add: Let_def)

text \<open>While the replies are 429 the executor goes on until \<open>retryCount\<close> reaches \<open>maxRetries\<close>.\<close>

lemma axiosWithRetry_exhausted:
  assumes "\<forall>j. retryCount \<le> j \<and> j \<le> maxRetries \<longrightarrow> rate_limited (axios j)"
    and "retryCount \<le> maxRetries"
  shows "fst (axiosWithRetry axios now retryCount maxRetries accountName st)
           = Inl (RateLimitExceeded maxRetries)
       \<and> length (fst (snd (axiosWithRetry axios now retryCount maxRetries accountName st)))
           = maxRetries - retryCount
       \<and> failedAfterRetry (snd (snd (axiosWithRetry axios now retryCount maxRetries accountName st)))
           = failedAfterRetry st + 1"
  using assms
proof (induction "maxRetries - retryCount" arbitrary: retryCount st)
  case 0
  then have eq: "retryCount = maxRetries" by simp
  from "0.prems" have "rate_limited (axios retryCount)" by simp
  then obtain r where r: "axios retryCount = Rejected (HttpError r)" "status r = 429"
    by (auto simp: rate_limited_iff)
  have "\<not> retryCount < maxRetries" using eq by simp
  from axiosWithRetry_give_up [where axios = axios and retryCount = retryCount, OF r this] eq
  show ?case by simp
next
  case (Suc d)
  then have lt: "retryCount < maxRetries" by simp
  from Suc.prems have "rate_limited (axios retryCount)" by simp
  then obtain r where r: "axios retryCount = Rejected (HttpError r)" "status r = 429"
    by (auto simp: rate_limited_iff)
  let ?st2 = "track_rate_limit now retryCount accountName
                (if retryCount = 0 then st \<lparr> totalRequests := totalRequests st + 1 \<rparr> else st)"
  have d: "d = maxRetries - (retryCount + 1)" using Suc.hyps(2) by simp
  have all: "\<forall>j. retryCount + 1 \<le> j \<and> j \<le> maxRetries \<longrightarrow> rate_limited (axios j)"
    using Suc.prems(1) by simp
  have le: "retryCount + 1 \<le> maxRetries" using lt by simp
  note IH = Suc.hyps(1) [OF d all le, of ?st2]
  have f: "failedAfterRetry ?st2 = failedAfterRetry st" by simp
  show ?case
    unfolding axiosWithRetry_retry [where axios = axios and retryCount = retryCount, OF r lt]
    using IH lt f by (simp add: case_prod_beta)
qed



text \<open>Every wait was caused by a 429 reply.\<close>

lemma axiosWithRetry_waits_429:
  assumes "k < length (fst (snd (axiosWithRetry axios now retryCount maxRetries accountName st)))"
  shows "rate_limited (axios (retryCount + k))"
  using assms
proof (induction "maxRetries - retryCount" arbitrary: retryCount st k)
  case 0
  then have nlt: "\<not> retryCount < maxRetries" by simp
  show ?case
  proof (cases "axios retryCount")
    case (Resolved r)
    from axiosWithRetry_resolved [where axios = axios and retryCount = retryCount, OF this] "0.prems"
    show ?thesis by simp
  next
    case (Rejected e)
    show ?thesis
    proof (cases e)
      case (NetworkError m)
      with Rejected have "axios retryCount = Rejected (NetworkError m)" by simp
      from axiosWithRetry_network [where axios = axios and retryCount = retryCount, OF this] "0.prems"
      show ?thesis by simp
    next
      case (HttpError r)
      with Rejected have r: "axios retryCount = Rejected (HttpError r)" by simp
      show ?thesis
      proof (cases "status r = 429")
        case True
        from axiosWithRetry_give_up [where axios = axios and retryCount = retryCount, OF r True nlt]
          "0.prems"
        show ?thesis by simp
      next
        case False
        from axiosWithRetry_other_status [where axios = axios and retryCount = retryCount, OF r False]
          "0.prems"
        show ?thesis by simp
      qed
    qed
  qed
next
  case (Suc d)
  then have lt: "retryCount < maxRetries" by simp
  show ?case
  proof (cases "axios retryCount")
    case (Resolved r)
    from axiosWithRetry_resolved [where axios = axios and retryCount = retryCount, OF this] Suc.prems
    show ?thesis by simp
  next
    case (Rejected e)
    show ?thesis
    proof (cases e)
      case (NetworkError m)
      with Rejected have "axios retryCount = Rejected (NetworkError m)" by simp
      from axiosWithRetry_network [where axios = axios and retryCount = retryCount, OF this] Suc.prems
      show ?thesis by simp
    next
      case (HttpError r)
      with Rejected have r: "axios retryCount = Rejected (HttpError r)" by simp
      show ?thesis
      proof (cases "status r = 429")
        case False
        from axiosWithRetry_other_status [where axios = axios and retryCount = retryCount, OF r False]
          Suc.prems
        show ?thesis by simp
      next
        case True
        let ?st2 = "track_rate_limit now retryCount accountName
                      (if retryCount = 0 then st \<lparr> totalRequests := totalRequests st + 1 \<rparr> else st)"
        have here: "rate_limited (axios retryCount)"
          using r True by (auto simp: rate_limited_iff)
        have d: "d = maxRetries - (retryCount + 1)" using Suc.hyps(2) by simp
        show ?thesis
        proof (cases k)
          case 0
          with here show ?thesis by simp
        next
          case (Suc k')
          have "k' < length (fst (snd (axiosWithRetry axios now (retryCount + 1) maxRetries accountName ?st2)))"
            using Suc.prems Suc
            unfolding axiosWithRetry_retry [where axios = axios and retryCount = retryCount, OF r True lt]
            by (simp add: case_prod_beta)
          from Suc.hyps(1) [OF d this] Suc show ?thesis by simp
        qed
      qed
    qed
  qed
qed

text \<open>The first reply that is not a 429 ends the call: it is returned or thrown as it is.\<close>

lemma axiosWithRetry_first_other:
  assumes "retryCount \<le> k"
    and "\<forall>j. retryCount \<le> j \<and> j < k \<longrightarrow> rate_limited (axios j)"
    and "\<not> rate_limited (axios k)"
    and "k \<le> maxRetries"
  shows "fst (axiosWithRetry axios now retryCount maxRetries accountName st)
           = (case axios k of Resolved r \<Rightarrow> Inr r | Rejected e \<Rightarrow> Inl (Propagated e))
       \<and> length (fst (snd (axiosWithRetry axios now retryCount maxRetries accountName st)))
           = k - retryCount
       \<and> failedAfterRetry (snd (snd (axiosWithRetry axios now retryCount maxRetries accountName st)))
           = failedAfterRetry st"
  using assms
proof (induction "k - retryCount" arbitrary: retryCount st)
  case 0
  then have eq: "retryCount = k" by simp
  show ?case
  proof (cases "axios retryCount")
    case (Resolved r)
    from axiosWithRetry_resolved [where axios = axios and retryCount = retryCount, OF this] eq Resolved
    show ?thesis by simp
  next
    case (Rejected e)
    show ?thesis
    proof (cases e)
      case (NetworkError m)
      with Rejected have *: "axios retryCount = Rejected (NetworkError m)" by simp
      from axiosWithRetry_network [where axios = axios and retryCount = retryCount, OF *] eq *
      show ?thesis by simp
    next
      case (HttpError r)
      with Rejected have r: "axios retryCount = Rejected (HttpError r)" by simp
      with "0.prems"(3) eq have "status r \<noteq> 429" by (auto simp: rate_limited_iff)
      from axiosWithRetry_other_status [where axios = axios and retryCount = retryCount, OF r this] eq r
      show ?thesis by simp
    qed
  qed
next
  case (Suc d)
  then have ltk: "retryCount < k" by simp
  then have lt: "retryCount < maxRetries" using Suc.prems(4) by simp
  from Suc.prems(2) ltk have "rate_limited (axios retryCount)" by simp
  then obtain r where r: "axios retryCount = Rejected (HttpError r)" "status r = 429"
    by (auto simp: rate_limited_iff)
  let ?st2 = "track_rate_limit now retryCount accountName
                (if retryCount = 0 then st \<lparr> totalRequests := totalRequests st + 1 \<rparr> else st)"
  have d: "d = k - (retryCount + 1)" using Suc.hyps(2) by simp
  have le: "retryCount + 1 \<le> k" using ltk by simp
  have all: "\<forall>j. retryCount + 1 \<le> j \<and> j < k \<longrightarrow> rate_limited (axios j)"
    using Suc.prems(2) by simp
  note IH = Suc.hyps(1) [OF d le all Suc.prems(3) Suc.prems(4), of ?st2]
  have f: "failedAfterRetry ?st2 = failedAfterRetry st" by simp
  show ?case
    unfolding axiosWithRetry_retry [where axios = axios and retryCount = retryCount, OF r lt]
    using IH ltk f by (simp add: case_prod_beta)
qed








lemma always_429_limited: "rate_limited (always_429 k)" "retry_after_of (always_429 k) = None"
  by (simp_all add: always_429_def rate_limited_def retry_after_of_def)


text \<open>
  C3. The executor retries only on 429. When the replies to the attempts
  \<open>0, \<dots>, maxRetries\<close> are all 429 (with the default \<open>maxRetries = 5\<close>: six replies), it
  throws the rate-limit error after \<open>maxRetries\<close> retries and adds one to
  \<^verbatim>\<open>failedAfterRetry\<close>. A reply with any other error status is thrown as it is, with the
  provider's status and body, and nothing is sent after it: at the first attempt
  without any wait, and after \<open>k\<close> replies 429 with exactly the \<open>k\<close> waits before it.
  Every wait of a call follows a 429 reply.
\<close>

theorem retry_only_on_429:
  "((\<forall>j \<le> maxRetries. rate_limited (axios j)) \<longrightarrow>
      fst (axiosWithRetry axios now 0 maxRetries accountName st) = Inl (RateLimitExceeded maxRetries)
      \<and> length (fst (snd (axiosWithRetry axios now 0 maxRetries accountName st))) = maxRetries
      \<and> failedAfterRetry (snd (snd (axiosWithRetry axios now 0 maxRetries accountName st)))
          = failedAfterRetry st + 1)
   \<and> ((\<forall>j \<le> 5. rate_limited (axios j)) \<longrightarrow>
      fst (axiosWithRetry_default axios now accountName st) = Inl (RateLimitExceeded 5)
      \<and> length (fst (snd (axiosWithRetry_default axios now accountName st))) = 5
      \<and> failedAfterRetry (snd (snd (axiosWithRetry_default axios now accountName st)))
          = failedAfterRetry st + 1)
   \<and> (\<forall>r. axios 0 = Rejected (HttpError r) \<and> status r \<noteq> 429 \<longrightarrow>
        axiosWithRetry axios now 0 maxRetries accountName st
          = (Inl (Propagated (HttpError r)), [], st \<lparr> totalRequests := totalRequests st + 1 \<rparr>))
   \<and> (\<forall>k r. k \<le> maxRetries \<and> (\<forall>j < k. rate_limited (axios j))
            \<and> axios k = Rejected (HttpError r) \<and> status r \<noteq> 429 \<longrightarrow>
        fst (axiosWithRetry axios now 0 maxRetries accountName st) = Inl (Propagated (HttpError r))
        \<and> length (fst (snd (axiosWithRetry axios now 0 maxRetries accountName st))) = k
        \<and> failedAfterRetry (snd (snd (axiosWithRetry axios now 0 maxRetries accountName st)))
            = failedAfterRetry st)
   \<and> (\<forall>k < length (fst (snd (axiosWithRetry axios now 0 maxRetries accountName st))).
        rate_limited (axios k))"
proof -
  have exhausted:
    "fst (axiosWithRetry axios now 0 m accountName st) = Inl (RateLimitExceeded m)
     \<and> length (fst (snd (axiosWithRetry axios now 0 m accountName st))) = m
     \<and> failedAfterRetry (snd (snd (axiosWithRetry axios now 0 m accountName st)))
         = failedAfterRetry st + 1"
    if "\<forall>j \<le> m. rate_limited (axios j)" for m
    using axiosWithRetry_exhausted [of 0 m axios now accountName st] that by simp
  have first: "axiosWithRetry axios now 0 maxRetries accountName st
                 = (Inl (Propagated (HttpError r)), [], st \<lparr> totalRequests := totalRequests st + 1 \<rparr>)"
    if "axios 0 = Rejected (HttpError r) \<and> status r \<noteq> 429" for r
    using axiosWithRetry_other_status [where axios = axios and retryCount = 0 and r = r] that
    by simp
  have later:
    "fst (axiosWithRetry axios now 0 maxRetries accountName st) = Inl (Propagated (HttpError r))
     \<and> length (fst (snd (axiosWithRetry axios now 0 maxRetries accountName st))) = k
     \<and> failedAfterRetry (snd (snd (axiosWithRetry axios now 0 maxRetries accountName st)))
         = failedAfterRetry st"
    if "k \<le> maxRetries \<and> (\<forall>j < k. rate_limited (axios j))
        \<and> axios k = Rejected (HttpError r) \<and> status r \<noteq> 429" for k r
  proof -
    have "\<not> rate_limited (axios k)" using that by (auto simp: rate_limited_iff)
    moreover have "\<forall>j. 0 \<le> j \<and> j < k \<longrightarrow> rate_limited (axios j)" using that by simp
    ultimately show ?thesis
      using axiosWithRetry_first_other [of 0 k axios maxRetries now accountName st] that by simp
  qed
  have only: "rate_limited (axios k)"
    if "k < length (fst (snd (axiosWithRetry axios now 0 maxRetries accountName st)))" for k
    using axiosWithRetry_waits_429 [OF that] by simp
  from exhausted [of maxRetries] exhausted [of 5] first later only show ?thesis
    unfolding axiosWithRetry_default_def by blast
qed

lemma then_403_replies:
  "rate_limited (then_403 0)" "then_403 1 = Rejected (HttpError forbidden)" "status forbidden \<noteq> 429"
  by (simp_all add: then_403_def always_429_limited forbidden_def)

lemma always_500_replies:
  "always_500 0 = Rejected (HttpError internal_error)" "status internal_error \<noteq> 429"
  by (simp_all add: always_500_def internal_error_def)

theorem retry_only_on_429_witness:
  "rate_limited (always_429 0) \<and> rate_limited (always_429 5)
   \<and> fst (axiosWithRetry_default always_429 0 ''A'' no_stats) = Inl (RateLimitExceeded 5)
   \<and> length (fst (snd (axiosWithRetry_default always_429 0 ''A'' no_stats))) = 5
   \<and> failedAfterRetry (snd (snd (axiosWithRetry_default always_429 0 ''A'' no_stats))) = 1
   \<and> always_500 0 = Rejected (HttpError internal_error) \<and> status internal_error \<noteq> 429
   \<and> axiosWithRetry always_500 0 0 5 ''A'' no_stats
       = (Inl (Propagated (HttpError internal_error)), [],
          no_stats \<lparr> totalRequests := totalRequests no_stats + 1 \<rparr>)
   \<and> (1::nat) \<le> 5 \<and> rate_limited (then_403 0)
   \<and> then_403 1 = Rejected (HttpError forbidden) \<and> status forbidden \<noteq> 429
   \<and> fst (axiosWithRetry then_403 0 0 5 ''A'' no_stats) = Inl (Propagated (HttpError forbidden))
   \<and> length (fst (snd (axiosWithRetry then_403 0 0 5 ''A'' no_stats))) = 1"
proof -
  have a: "\<forall>j \<le> 5. rate_limited (always_429 j)" by (simp add: always_429_limited)
  have b: "\<forall>j < 1. rate_limited (then_403 j)" by (simp add: then_403_replies)
  have z: "failedAfterRetry no_stats = 0" by (simp add: no_stats_def)
  note T1 = retry_only_on_429 [of 5 always_429 0 "''A''" no_stats]
  note T2 = retry_only_on_429 [of 5 always_500 0 "''A''" no_stats]
  note T3 = retry_only_on_429 [of 5 then_403 0 "''A''" no_stats]
  have c1: "fst (axiosWithRetry_default always_429 0 ''A'' no_stats) = Inl (RateLimitExceeded 5)
      \<and> length (fst (snd (axiosWithRetry_default always_429 0 ''A'' no_stats))) = 5
      \<and> failedAfterRetry (snd (snd (axiosWithRetry_default always_429 0 ''A'' no_stats)))
          = failedAfterRetry no_stats + 1"
    by (rule T1 [THEN conjunct2, THEN conjunct1, THEN mp, OF a])
  have p2: "always_500 0 = Rejected (HttpError internal_error) \<and> status internal_error \<noteq> 429"
    by (simp add: always_500_replies)
  have c2: "axiosWithRetry always_500 0 0 5 ''A'' no_stats
       = (Inl (Propagated (HttpError internal_error)), [],
          no_stats \<lparr> totalRequests := totalRequests no_stats + 1 \<rparr>)"
    by (rule T2 [THEN conjunct2, THEN conjunct2, THEN conjunct1, THEN spec, THEN mp, OF p2])
  have p3: "(1::nat) \<le> 5 \<and> (\<forall>j < 1. rate_limited (then_403 j))
            \<and> then_403 1 = Rejected (HttpError forbidden) \<and> status forbidden \<noteq> 429"
    using b then_403_replies by simp
  have c3: "fst (axiosWithRetry then_403 0 0 5 ''A'' no_stats) = Inl (Propagated (HttpError forbidden))
        \<and> length (fst (snd (axiosWithRetry then_403 0 0 5 ''A'' no_stats))) = 1
        \<and> failedAfterRetry (snd (snd (axiosWithRetry then_403 0 0 5 ''A'' no_stats)))
            = failedAfterRetry no_stats"
    by (rule T3 [THEN conjunct2, THEN conjunct2, THEN conjunct2, THEN conjunct1,
                 THEN spec, THEN spec, THEN mp, OF p3])
  have c4: "\<forall>k < length (fst (snd (axiosWithRetry then_403 0 0 5 ''A'' no_stats))). rate_limited (then_403 k)"
    by (rule T3 [THEN conjunct2, THEN conjunct2, THEN conjunct2, THEN conjunct2])
  from c1 z have c1': "failedAfterRetry (snd (snd (axiosWithRetry_default always_429 0 ''A'' no_stats))) = 1"
    by simp
  show ?thesis
    using a c1 c1' p2 c2 p3 c3 c4 always_429_limited(1) then_403_replies(1) by simp
qed

section \<open>A failed submission still blocks the re-send\<close>

lemma submit_start_end_recent [simp]:
  "recentRequests (snd (submit_start_end env req tokenObj st)) = recentRequests st"
  by (simp add: submit_start_end_def Let_def split: option.splits prod.splits sum.splits)

lemma submit_start_end_not_duplicate [simp]:
  "fst (submit_start_end env req tokenObj st) \<noteq> Duplicate_request"
  by (simp add: submit_start_end_def Let_def split: option.splits prod.splits sum.splits)

lemma generate_start_end_recent:
  "recentRequests (snd (generate_start_end h env req st))
     = snd (isDuplicateRequest (env_now env) (h req) (recentRequests st))"
  by (simp add: generate_start_end_def Let_def split: option.splits prod.splits bool.splits)

lemma generate_start_end_duplicate:
  "fst (generate_start_end h env req st) = Duplicate_request
     \<longleftrightarrow> fst (isDuplicateRequest (env_now env) (h req) (recentRequests st))"
  by (simp add: generate_start_end_def Let_def split: option.splits prod.splits bool.splits)

text \<open>
  C10. The handler calls \<^verbatim>\<open>isDuplicateRequest\<close>, which stores the fingerprint, before it
  chooses a lane and calls the provider, and nothing afterwards removes the entry. So
  when the first submission got past the duplicate check, whatever came of it and in
  particular when the provider call failed, the fingerprint is stored with the time of
  the check, and the same request sent again at most 3000 ms after that check is
  rejected as a duplicate.
\<close>

theorem failed_submission_blocks_resend:
  "(fst (generate_start_end h env1 req st) \<noteq> Duplicate_request \<longrightarrow>
      recentRequests (snd (generate_start_end h env1 req st)) (h req) = Some (env_now env1)
      \<and> (env_now env2 - env_now env1 \<le> 3000 \<longrightarrow>
           fst (generate_start_end h env2 req (snd (generate_start_end h env1 req st)))
             = Duplicate_request))
   \<and> (\<forall>e. fst (generate_start_end h env1 req st) = Reply_thrown (ExecError e)
          \<and> env_now env2 - env_now env1 \<le> 3000 \<longrightarrow>
        fst (generate_start_end h env2 req (snd (generate_start_end h env1 req st)))
          = Duplicate_request)"
proof -
  have main: "recentRequests (snd (generate_start_end h env1 req st)) (h req) = Some (env_now env1)
      \<and> (env_now env2 - env_now env1 \<le> 3000 \<longrightarrow>
           fst (generate_start_end h env2 req (snd (generate_start_end h env1 req st)))
             = Duplicate_request)"
    if "fst (generate_start_end h env1 req st) \<noteq> Duplicate_request"
  proof -
    from that have acc: "fst (isDuplicateRequest (env_now env1) (h req) (recentRequests st)) = False"
      by (simp add: generate_start_end_duplicate)
    then have stored: "snd (isDuplicateRequest (env_now env1) (h req) (recentRequests st)) (h req)
                         = Some (env_now env1)"
      by (rule isDuplicateRequest_accepted)
    have again: "fst (isDuplicateRequest (env_now env2) (h req)
                       (snd (isDuplicateRequest (env_now env1) (h req) (recentRequests st))))"
      if "env_now env2 - env_now env1 \<le> 3000"
    proof -
      have "purge_old (env_now env2)
              (snd (isDuplicateRequest (env_now env1) (h req) (recentRequests st))) (h req)
              = Some (env_now env1)"
        using stored that by (simp add: purge_old_keeps)
      then show ?thesis by (simp add: isDuplicateRequest_def [of "env_now env2"] Let_def)
    qed
    show ?thesis
      using stored again
      by (simp add: generate_start_end_recent generate_start_end_duplicate [of h env2])
  qed
  then show ?thesis by auto
qed

lemma failing_provider_fields:
  "env_now (failing_provider t) = t" "env_axios (failing_provider t) = always_500"
  "env_now_request (failing_provider t) = t + 5"
  by (simp_all add: failing_provider_def)

lemma always_500_thrown:
  "fst (axiosWithRetry always_500 now 0 5 accountName st)
     = Inl (Propagated (HttpError internal_error))"
  using axiosWithRetry_other_status [where axios = always_500 and retryCount = 0,
          OF always_500_replies(1) always_500_replies(2)]
  by simp

lemma first_submission:
  "fst (generate_start_end prompt_digest (failing_provider 1000) sample_request fresh_server)
     = Reply_thrown (ExecError (Propagated (HttpError internal_error)))"
proof -
  have dup: "isDuplicateRequest 1000 ''a cat'' Map.empty = (False, Map.empty(''a cat'' \<mapsto> 1000))"
    by (simp add: isDuplicateRequest_def purge_old_def Let_def)
  have tok: "getNextToken (pool fresh_server)
               = (Some lane_A, (pool fresh_server) \<lparr> currentTokenIndex := 1 \<rparr>)"
    by (simp add: getNextToken_def fresh_server_def)
  have req: "prompt_digest sample_request = ''a cat''" "tokenName sample_request = None"
    "prompt sample_request = Some ''a cat''"
    by (simp_all add: prompt_digest_def sample_request_def)
  have auth: "authorization lane_A = Some ''Bearer a''" by (simp add: lane_A_def)
  have rec: "recentRequests fresh_server = Map.empty" by (simp add: fresh_server_def)
  obtain w s where run:
    "axiosWithRetry always_500 1005 0 5 ''A'' (rateLimitStats fresh_server)
       = (Inl (Propagated (HttpError internal_error)), w, s)"
    using always_500_thrown [of 1005 "''A''" "rateLimitStats fresh_server"]
    by (cases "axiosWithRetry always_500 1005 0 5 ''A'' (rateLimitStats fresh_server)") auto
  show ?thesis
    by (simp add: generate_start_end_def failing_provider_fields req rec dup tok
          submit_start_end_def lane_names auth run Let_def)
qed

theorem failed_submission_blocks_resend_witness:
  "fst (generate_start_end prompt_digest (failing_provider 1000) sample_request fresh_server)
     = Reply_thrown (ExecError (Propagated (HttpError internal_error)))
   \<and> env_now (failing_provider 3500) - env_now (failing_provider 1000) \<le> 3000
   \<and> fst (generate_start_end prompt_digest (failing_provider 3500) sample_request
            (snd (generate_start_end prompt_digest (failing_provider 1000) sample_request fresh_server)))
       = Duplicate_request"
proof -
  have t: "env_now (failing_provider 3500) - env_now (failing_provider 1000) \<le> 3000"
    by (simp add: failing_provider_fields)
  from failed_submission_blocks_resend
         [of prompt_digest "failing_provider 1000" sample_request fresh_server "failing_provider 3500"]
       first_submission t
  show ?thesis by simp
qed

section \<open>The batch poll loop\<close>

lemma observe_fields [simp]:
  "pollAttempts (observe st op) = pollAttempts st"
  "pollDone (observe st op) = pollDone st"
  "slept (observe st op) = slept st"
  "resultOps (observe st op) = resultOps st"
  by (simp_all add: observe_def Let_def split: option.splits)

lemma foldl_observe_fields [simp]:
  "pollAttempts (foldl observe st ops) = pollAttempts st"
  "pollDone (foldl observe st ops) = pollDone st"
  "slept (foldl observe st ops) = slept st"
  "resultOps (foldl observe st ops) = resultOps st"
  by (induction ops arbitrary: st) simp_all

lemma observe_completed:
  "successCountPoll (observe st op) + failedCount (observe st op)
     = successCountPoll st + failedCount st + completed_count [op]"
  by (simp add: observe_def completed_count_def Let_def split: option.splits)

lemma completed_count_Cons:
  "completed_count (op # ops) = completed_count [op] + completed_count ops"
  by (simp add: completed_count_def)

lemma foldl_observe_completed:
  "successCountPoll (foldl observe st ops) + failedCount (foldl observe st ops)
     = successCountPoll st + failedCount st + completed_count ops"
proof (induction ops arbitrary: st)
  case Nil
  then show ?case by (simp add: completed_count_def)
next
  case (Cons op ops)
  have "successCountPoll (foldl observe (observe st op) ops) + failedCount (foldl observe (observe st op) ops)
          = successCountPoll (observe st op) + failedCount (observe st op) + completed_count ops"
    by (rule Cons.IH)
  then show ?case
    using observe_completed [of st op] completed_count_Cons [of op ops] by simp
qed

text \<open>What one pass of the loop does to the attempt counter, the flag and the sleeps.\<close>

lemma poll_tick_attempts [simp]:
  "pollAttempts (poll_tick reply totalVariants st) = pollAttempts st + 1"
  by (simp add: poll_tick_def Let_def split: poll_reply.splits option.splits)

lemma poll_tick_done:
  "pollDone (poll_tick reply totalVariants st) \<longleftrightarrow> pollDone st \<or> completes reply totalVariants"
  by (simp add: poll_tick_def Let_def completes_def foldl_observe_completed
           split: poll_reply.splits option.splits)

lemma poll_tick_slept:
  "slept (poll_tick reply totalVariants st)
     = (if \<not> pollDone (poll_tick reply totalVariants st) \<and> pollAttempts st + 1 < maxPoll
        then slept st @ [10000] else slept st)"
  by (simp add: poll_tick_def Let_def split: poll_reply.splits option.splits)

lemma poll_loop_stop:
  "\<not> (pollAttempts st < maxPoll \<and> \<not> pollDone st) \<Longrightarrow> poll_loop replies totalVariants st = st"
  by (subst poll_loop.simps) auto

lemma poll_loop_step:
  "pollAttempts st < maxPoll \<Longrightarrow> \<not> pollDone st \<Longrightarrow>
   poll_loop replies totalVariants st
     = poll_loop replies totalVariants (poll_tick (replies (pollAttempts st)) totalVariants st)"
  by (subst poll_loop.simps) simp

lemma poll_loop_bound:
  "pollAttempts st \<le> maxPoll \<Longrightarrow> pollAttempts (poll_loop replies totalVariants st) \<le> maxPoll"
proof (induction replies totalVariants st rule: poll_loop.induct)
  case (1 replies totalVariants st)
  show ?case
  proof (cases "pollAttempts st < maxPoll \<and> \<not> pollDone st")
    case True
    then have "pollAttempts (poll_tick (replies (pollAttempts st)) totalVariants st) \<le> maxPoll"
      by simp
    from "1.IH" [OF True this] True show ?thesis by (simp add: poll_loop_step)
  next
    case False
    then show ?thesis using "1.prems" by (simp add: poll_loop_stop)
  qed
qed

text \<open>The loop ends with the first reply that completes the tally.\<close>

lemma poll_loop_completes:
  assumes "pollAttempts st \<le> k" and "k < maxPoll" and "\<not> pollDone st"
    and "\<forall>j. pollAttempts st \<le> j \<and> j < k \<longrightarrow> \<not> completes (replies j) totalVariants"
    and "completes (replies k) totalVariants"
  shows "pollAttempts (poll_loop replies totalVariants st) = k + 1
       \<and> pollDone (poll_loop replies totalVariants st)
       \<and> slept (poll_loop replies totalVariants st) = slept st @ replicate (k - pollAttempts st) 10000"
  using assms
proof (induction "k - pollAttempts st" arbitrary: st)
  case 0
  then have eq: "pollAttempts st = k" by simp
  let ?st' = "poll_tick (replies k) totalVariants st"
  have d: "pollDone ?st'" using "0.prems"(5) by (simp add: poll_tick_done)
  have "poll_loop replies totalVariants st = poll_loop replies totalVariants ?st'"
    using poll_loop_step [of st replies totalVariants] "0.prems"(2,3) eq by simp
  also have "\<dots> = ?st'" using d by (simp add: poll_loop_stop)
  finally show ?case using d eq by (simp add: poll_tick_slept)
next
  case (Suc d)
  then have lt: "pollAttempts st < k" by simp
  let ?st' = "poll_tick (replies (pollAttempts st)) totalVariants st"
  have nc: "\<not> completes (replies (pollAttempts st)) totalVariants"
    using Suc.prems(4) lt by simp
  have nd: "\<not> pollDone ?st'" using nc Suc.prems(3) by (simp add: poll_tick_done)
  have step: "poll_loop replies totalVariants st = poll_loop replies totalVariants ?st'"
    using poll_loop_step [of st replies totalVariants] lt Suc.prems(2,3) by simp
  have sl: "slept ?st' = slept st @ [10000]"
    using nd lt Suc.prems(2) by (simp add: poll_tick_slept)
  have d: "d = k - pollAttempts ?st'" using Suc.hyps(2) by simp
  have le: "pollAttempts ?st' \<le> k" using lt by simp
  have all: "\<forall>j. pollAttempts ?st' \<le> j \<and> j < k \<longrightarrow> \<not> completes (replies j) totalVariants"
    using Suc.prems(4) by simp
  note IH = Suc.hyps(1) [OF d le Suc.prems(2) nd all Suc.prems(5)]
  have "replicate (k - pollAttempts st) (10000::nat) = 10000 # replicate (k - pollAttempts ?st') 10000"
    using lt by (simp add: Suc_diff_Suc flip: replicate_Suc)
  then show ?case using IH sl unfolding step by simp
qed

text \<open>Without such a reply the loop ends when the 120 attempts are used up.\<close>

lemma poll_loop_exhausted:
  assumes "pollAttempts st < maxPoll" and "\<not> pollDone st"
    and "\<forall>j. pollAttempts st \<le> j \<and> j < maxPoll \<longrightarrow> \<not> completes (replies j) totalVariants"
  shows "pollAttempts (poll_loop replies totalVariants st) = maxPoll
       \<and> \<not> pollDone (poll_loop replies totalVariants st)
       \<and> slept (poll_loop replies totalVariants st)
           = slept st @ replicate (maxPoll - 1 - pollAttempts st) 10000"
  using assms
proof (induction "maxPoll - 1 - pollAttempts st" arbitrary: st)
  case 0
  then have eq: "pollAttempts st + 1 = maxPoll" by simp
  let ?st' = "poll_tick (replies (pollAttempts st)) totalVariants st"
  have nc: "\<not> completes (replies (pollAttempts st)) totalVariants"
    using "0.prems"(1,3) by simp
  have nd: "\<not> pollDone ?st'" using nc "0.prems"(2) by (simp add: poll_tick_done)
  have "poll_loop replies totalVariants st = poll_loop replies totalVariants ?st'"
    using poll_loop_step [of st replies totalVariants] "0.prems"(1,2) by simp
  also have "\<dots> = ?st'" using eq by (simp add: poll_loop_stop)
  finally show ?case using nd eq "0.hyps" by (simp add: poll_tick_slept)
next
  case (Suc d)
  then have lt: "pollAttempts st + 1 < maxPoll" by simp
  let ?st' = "poll_tick (replies (pollAttempts st)) totalVariants st"
  have nc: "\<not> completes (replies (pollAttempts st)) totalVariants"
    using Suc.prems(1,3) by simp
  have nd: "\<not> pollDone ?st'" using nc Suc.prems(2) by (simp add: poll_tick_done)
  have step: "poll_loop replies totalVariants st = poll_loop replies totalVariants ?st'"
    using poll_loop_step [of st replies totalVariants] Suc.prems(1,2) by simp
  have sl: "slept ?st' = slept st @ [10000]"
    using nd lt by (simp add: poll_tick_slept)
  have d: "d = maxPoll - 1 - pollAttempts ?st'" using Suc.hyps(2) by simp
  have lt': "pollAttempts ?st' < maxPoll" using lt by simp
  have all: "\<forall>j. pollAttempts ?st' \<le> j \<and> j < maxPoll \<longrightarrow> \<not> completes (replies j) totalVariants"
    using Suc.prems(3) by simp
  note IH = Suc.hyps(1) [OF d lt' nd all]
  have "replicate (maxPoll - 1 - pollAttempts st) (10000::nat)
          = 10000 # replicate (maxPoll - 1 - pollAttempts ?st') 10000"
    using Suc.hyps(2) by (simp flip: replicate_Suc)
  then show ?case using IH sl unfolding step by simp
qed


text \<open>What the steps after the loop leave of the chain.\<close>

lemma record_error_chain [simp]:
  "initialClips (record_error n p e cs) = initialClips cs"
  "lastClipId (record_error n p e cs) = lastClipId cs"
  "successCount (record_error n p e cs) = successCount cs"
  by (simp_all add: record_error_def)

lemma foldl_record_error_chain [simp]:
  "initialClips (foldl (\<lambda>c i. record_error n p (f i) c) cs xs) = initialClips cs"
  "lastClipId (foldl (\<lambda>c i. record_error n p (f i) c) cs xs) = lastClipId cs"
  by (induction xs arbitrary: cs) simp_all

lemma download_videos_chain [simp]:
  "initialClips (download_videos ok n p urls cs) = initialClips cs"
  "lastClipId (download_videos ok n p urls cs) = lastClipId cs"
  by (simp_all add: download_videos_def Let_def)

lemma after_polling_abandoned:
  "\<not> pollDone ps \<or> \<not> truthy (selectedMediaId ps) \<Longrightarrow>
   after_polling env n p ps cs = Value (record_error n p Poll_timeout cs)"
  by (simp add: after_polling_def)

text \<open>
  C6. The batch poll loop makes at most 120 status requests. It stops with the first
  reply in which the SUCCESSFUL and FAILED operations together number at least
  \<open>totalVariants\<close>, the number of operations of the job, having slept 10000 ms after
  each earlier request. When none of the 120 replies does so, it stops after the 120th
  request, with 119 sleeps of 10000 ms, and the prompt is given up: the timeout is
  recorded, the local clip list and the last clip id stay as they were, and the run goes
  on with the next prompt. The same happens whenever no media id was selected.
\<close>

theorem poll_termination:
  "pollAttempts (poll_job replies ops) \<le> 120
   \<and> (\<forall>k. k < 120 \<and> (\<forall>j < k. \<not> completes (replies j) (length ops))
            \<and> completes (replies k) (length ops) \<longrightarrow>
          pollAttempts (poll_job replies ops) = k + 1
          \<and> pollDone (poll_job replies ops)
          \<and> slept (poll_job replies ops) = replicate k 10000)
   \<and> ((\<forall>j < 120. \<not> completes (replies j) (length ops)) \<longrightarrow>
          pollAttempts (poll_job replies ops) = 120
          \<and> \<not> pollDone (poll_job replies ops)
          \<and> slept (poll_job replies ops) = replicate 119 10000
          \<and> after_polling env n p (poll_job replies ops) cs = Value (record_error n p Poll_timeout cs)
          \<and> initialClips (record_error n p Poll_timeout cs) = initialClips cs
          \<and> lastClipId (record_error n p Poll_timeout cs) = lastClipId cs
          \<and> (pe_generate env = Gen_operations ops \<and> pe_status env = replies
               \<and> (str_includes (toLowerCase p) ''(new)'' \<or> lastClipId cs \<noteq> None) \<longrightarrow>
              run_prompts i ((env, p) # rest) cs
                = run_prompts (i + 1) rest (record_error (i + 2) p Poll_timeout cs)))
   \<and> (\<not> truthy (selectedMediaId (poll_job replies ops)) \<longrightarrow>
          after_polling env n p (poll_job replies ops) cs = Value (record_error n p Poll_timeout cs))"
proof -
  let ?st = "start_polling ops"
  have start: "pollAttempts ?st = 0" "\<not> pollDone ?st" "slept ?st = []"
    by (simp_all add: start_polling_def)
  have bound: "pollAttempts (poll_job replies ops) \<le> 120"
    using poll_loop_bound [of ?st replies "length ops"] start
    by (simp add: poll_job_def maxPoll_def)
  have complete: "pollAttempts (poll_job replies ops) = k + 1
          \<and> pollDone (poll_job replies ops)
          \<and> slept (poll_job replies ops) = replicate k 10000"
    if "k < 120 \<and> (\<forall>j < k. \<not> completes (replies j) (length ops))
        \<and> completes (replies k) (length ops)" for k
    using poll_loop_completes [of ?st k replies "length ops"] start that
    by (simp add: poll_job_def maxPoll_def)
  have exhaust: "pollAttempts (poll_job replies ops) = 120
          \<and> \<not> pollDone (poll_job replies ops)
          \<and> slept (poll_job replies ops) = replicate 119 10000"
    if "\<forall>j < 120. \<not> completes (replies j) (length ops)"
    using poll_loop_exhausted [of ?st replies "length ops"] start that
    by (simp add: poll_job_def maxPoll_def)
  have skip: "after_polling env n p (poll_job replies ops) cs = Value (record_error n p Poll_timeout cs)"
    if "\<not> pollDone (poll_job replies ops)" for n
    using that by (simp add: after_polling_abandoned)
  have next_prompt: "run_prompts i ((env, p) # rest) cs
                = run_prompts (i + 1) rest (record_error (i + 2) p Poll_timeout cs)"
    if "\<not> pollDone (poll_job replies ops)"
      and "pe_generate env = Gen_operations ops \<and> pe_status env = replies
               \<and> (str_includes (toLowerCase p) ''(new)'' \<or> lastClipId cs \<noteq> None)"
    using that skip [OF that(1), of "i + 2"] by (auto simp: run_prompt_def)
  have none: "after_polling env n p (poll_job replies ops) cs = Value (record_error n p Poll_timeout cs)"
    if "\<not> truthy (selectedMediaId (poll_job replies ops))"
    using that by (simp add: after_polling_abandoned)
  from bound complete exhaust skip next_prompt none show ?thesis
    by (simp only: record_error_chain) blast
qed

lemma completes_pending_active_successful:
  "\<not> completes (pending_active_successful 0) 1" "\<not> completes (pending_active_successful 1) 1"
  "completes (pending_active_successful 2) 1"
  by (simp_all add: completes_def pending_active_successful_def completed_count_def
        op_in_state_def successful_op_def)

lemma completes_always_pending: "\<not> completes (always_pending j) 1"
  by (simp add: completes_def always_pending_def completed_count_def op_in_state_def)

theorem poll_termination_witness:
  "(2::nat) < 120
   \<and> \<not> completes (pending_active_successful 0) (length [one_handle])
   \<and> \<not> completes (pending_active_successful 1) (length [one_handle])
   \<and> completes (pending_active_successful 2) (length [one_handle])
   \<and> pollAttempts (poll_job pending_active_successful [one_handle]) = 3
   \<and> pollDone (poll_job pending_active_successful [one_handle])
   \<and> slept (poll_job pending_active_successful [one_handle]) = [10000, 10000]
   \<and> \<not> completes (always_pending 0) (length [one_handle])
   \<and> \<not> completes (always_pending 119) (length [one_handle])
   \<and> pollAttempts (poll_job always_pending [one_handle]) = 120
   \<and> \<not> pollDone (poll_job always_pending [one_handle])
   \<and> after_polling (provider always_pending True) 2 ''a cat'' (poll_job always_pending [one_handle]) one_clip_chain
       = Value (record_error 2 ''a cat'' Poll_timeout one_clip_chain)
   \<and> run_prompts 0 [(provider always_pending True, ''a cat'')] one_clip_chain
       = Value (record_error 2 ''a cat'' Poll_timeout one_clip_chain)"
proof -
  have h1: "(2::nat) < 120 \<and> (\<forall>j < 2. \<not> completes (pending_active_successful j) (length [one_handle]))
            \<and> completes (pending_active_successful 2) (length [one_handle])"
    using completes_pending_active_successful by (auto simp: less_Suc_eq numeral_2_eq_2)
  have h2: "\<forall>j < 120. \<not> completes (always_pending j) (length [one_handle])"
    using completes_always_pending by simp
  have h3: "pe_generate (provider always_pending True) = Gen_operations [one_handle]
            \<and> pe_status (provider always_pending True) = always_pending
            \<and> (str_includes (toLowerCase ''a cat'') ''(new)'' \<or> lastClipId one_clip_chain \<noteq> None)"
    by (simp add: provider_def one_clip_chain_def)
  note T1 = poll_termination [of pending_active_successful "[one_handle]"]
  note T2 = poll_termination [of always_pending "[one_handle]" "provider always_pending True" 2
              "''a cat''" one_clip_chain 0 "[]"]
  have c1: "pollAttempts (poll_job pending_active_successful [one_handle]) = 2 + 1
          \<and> pollDone (poll_job pending_active_successful [one_handle])
          \<and> slept (poll_job pending_active_successful [one_handle]) = replicate 2 10000"
    by (rule T1 [THEN conjunct2, THEN conjunct1, THEN spec, THEN mp, OF h1])
  note c2 = T2 [THEN conjunct2, THEN conjunct2, THEN conjunct1, THEN mp, OF h2]
  have c3: "run_prompts 0 [(provider always_pending True, ''a cat'')] one_clip_chain
              = run_prompts (0 + 1) [] (record_error (0 + 2) ''a cat'' Poll_timeout one_clip_chain)"
    using c2 h3 by blast
  show ?thesis
    using h1 h2 c1 c2 c3 completes_pending_active_successful completes_always_pending
    by (simp add: numeral_2_eq_2)
qed


section \<open>Variant selection\<close>

lemma observe_keeps_selection:
  "truthy (selectedMediaId st) \<Longrightarrow> selectedMediaId (observe st op) = selectedMediaId st"
  by (simp add: observe_def Let_def split: option.splits)

lemma foldl_observe_keeps_selection:
  "truthy (selectedMediaId st) \<Longrightarrow> selectedMediaId (foldl observe st ops) = selectedMediaId st"
  by (induction ops arbitrary: st) (simp_all add: observe_keeps_selection)

lemma observe_passes_over:
  "\<not> successful_with_id op \<Longrightarrow> selectedMediaId (observe st op) = selectedMediaId st"
  by (auto simp: observe_def successful_with_id_def Let_def split: option.splits)

lemma foldl_observe_passes_over:
  "\<forall>p \<in> set pre. \<not> successful_with_id p \<Longrightarrow>
   selectedMediaId (foldl observe st pre) = selectedMediaId st"
  by (induction pre arbitrary: st) (simp_all add: observe_passes_over)

lemma observe_selects:
  "\<not> truthy (selectedMediaId st) \<Longrightarrow> successful_with_id op \<Longrightarrow>
   selectedMediaId (observe st op) = mediaGenerationId op"
  by (simp add: observe_def successful_with_id_def Let_def split: option.splits)

lemma foldl_observe_selects:
  assumes "\<not> truthy (selectedMediaId st)" and "\<forall>p \<in> set pre. \<not> successful_with_id p"
    and "successful_with_id op"
  shows "selectedMediaId (foldl observe st (pre @ op # post)) = mediaGenerationId op"
proof -
  let ?s1 = "foldl observe st pre"
  have "selectedMediaId ?s1 = selectedMediaId st"
    using assms(2) by (rule foldl_observe_passes_over)
  then have "selectedMediaId (observe ?s1 op) = mediaGenerationId op"
    using assms(1,3) by (simp add: observe_selects)
  moreover have "truthy (mediaGenerationId op)"
    using assms(3) by (simp add: successful_with_id_def)
  ultimately have "selectedMediaId (foldl observe (observe ?s1 op) post) = mediaGenerationId op"
    by (simp add: foldl_observe_keeps_selection)
  then show ?thesis by simp
qed

lemma observe_urls_grow: "set (videoUrls st) \<subseteq> set (videoUrls (observe st op))"
  by (auto simp: observe_def Let_def split: option.splits)

lemma foldl_observe_urls_grow: "set (videoUrls st) \<subseteq> set (videoUrls (foldl observe st ops))"
proof (induction ops arbitrary: st)
  case Nil
  then show ?case by simp
next
  case (Cons op ops)
  have "set (videoUrls st) \<subseteq> set (videoUrls (observe st op))" by (rule observe_urls_grow)
  also have "\<dots> \<subseteq> set (videoUrls (foldl observe (observe st op) ops))" by (rule Cons.IH)
  finally show ?case by simp
qed

lemma observe_collects:
  "successful_with_id op \<Longrightarrow> fifeUrl_of op = Some url \<Longrightarrow> url \<noteq> [] \<Longrightarrow>
   url \<in> set (videoUrls (observe st op))"
  by (simp add: observe_def successful_with_id_def Let_def)

lemma foldl_observe_collects:
  assumes "op \<in> set ops" and "successful_with_id op" and "fifeUrl_of op = Some url" and "url \<noteq> []"
  shows "url \<in> set (videoUrls (foldl observe st ops))"
  using assms(1)
proof (induction ops arbitrary: st)
  case Nil
  then show ?case by simp
next
  case (Cons x xs)
  show ?case
  proof (cases "op = x")
    case True
    have "url \<in> set (videoUrls (observe st op))"
      using assms(2,3,4) by (rule observe_collects)
    then show ?thesis
      using foldl_observe_urls_grow [of "observe st op" xs] True by auto
  next
    case False
    then have "op \<in> set xs" using Cons.prems by simp
    then show ?thesis using Cons.IH by simp
  qed
qed

text \<open>The selection and the collected URLs after one pass of the loop.\<close>

lemma poll_tick_selection:
  "selectedMediaId (poll_tick (Poll_data (Some ops)) totalVariants st)
     = selectedMediaId (foldl observe
         (st \<lparr> pollAttempts := pollAttempts st + 1, successCountPoll := 0, activeCount := 0,
               pendingCount := 0, failedCount := 0 \<rparr>) ops)"
  "videoUrls (poll_tick (Poll_data (Some ops)) totalVariants st)
     = videoUrls (foldl observe
         (st \<lparr> pollAttempts := pollAttempts st + 1, successCountPoll := 0, activeCount := 0,
               pendingCount := 0, failedCount := 0 \<rparr>) ops)"
  by (simp_all add: poll_tick_def Let_def)

lemma poll_tick_keeps_selection:
  "truthy (selectedMediaId st) \<Longrightarrow>
   selectedMediaId (poll_tick reply totalVariants st) = selectedMediaId st"
proof (cases reply)
  case Poll_throws
  then show ?thesis by (simp add: poll_tick_def Let_def)
next
  case (Poll_data d)
  assume t: "truthy (selectedMediaId st)"
  show ?thesis
  proof (cases d)
    case None
    with Poll_data show ?thesis by (simp add: poll_tick_def Let_def)
  next
    case (Some ops)
    with Poll_data t show ?thesis
      by (simp add: poll_tick_selection foldl_observe_keeps_selection)
  qed
qed

lemma poll_loop_keeps_selection:
  "truthy (selectedMediaId st) \<Longrightarrow>
   selectedMediaId (poll_loop replies totalVariants st) = selectedMediaId st"
proof (induction replies totalVariants st rule: poll_loop.induct)
  case (1 replies totalVariants st)
  show ?case
  proof (cases "pollAttempts st < maxPoll \<and> \<not> pollDone st")
    case True
    let ?st' = "poll_tick (replies (pollAttempts st)) totalVariants st"
    have keep: "selectedMediaId ?st' = selectedMediaId st"
      using "1.prems" by (rule poll_tick_keeps_selection)
    then have "truthy (selectedMediaId ?st')" using "1.prems" by simp
    from "1.IH" [OF True this] keep True show ?thesis by (simp add: poll_loop_step)
  next
    case False
    then show ?thesis by (simp add: poll_loop_stop)
  qed
qed

text \<open>
  C7. While nothing is selected, a status reply selects the media id of its first
  SUCCESSFUL operation (one that carries a media id; the loop passes over a SUCCESSFUL
  operation without one). Once a media id is selected, no later operation, reply or pass
  of the loop changes it. The video URL of every SUCCESSFUL operation of a reply that
  carries a media id is among the collected URLs afterwards.
\<close>

theorem first_success_wins:
  "(\<not> truthy (selectedMediaId st)
      \<and> (\<forall>p \<in> set pre. po_status p \<noteq> ''MEDIA_GENERATION_STATUS_SUCCESSFUL'')
      \<and> po_status op = ''MEDIA_GENERATION_STATUS_SUCCESSFUL'' \<and> truthy (mediaGenerationId op) \<longrightarrow>
      selectedMediaId (poll_tick (Poll_data (Some (pre @ op # post))) totalVariants st)
        = mediaGenerationId op)
   \<and> (\<not> truthy (selectedMediaId st)
      \<and> (\<forall>p \<in> set pre. \<not> successful_with_id p) \<and> successful_with_id op \<longrightarrow>
      selectedMediaId (poll_tick (Poll_data (Some (pre @ op # post))) totalVariants st)
        = mediaGenerationId op)
   \<and> (truthy (selectedMediaId st) \<longrightarrow>
      selectedMediaId (poll_tick reply totalVariants st) = selectedMediaId st
      \<and> selectedMediaId (poll_loop replies totalVariants st) = selectedMediaId st)
   \<and> (\<forall>x url. x \<in> set ops \<and> successful_with_id x \<and> fifeUrl_of x = Some url \<and> url \<noteq> [] \<longrightarrow>
      url \<in> set (videoUrls (poll_tick (Poll_data (Some ops)) totalVariants st)))"
proof -
  let ?s = "st \<lparr> pollAttempts := pollAttempts st + 1, successCountPoll := 0, activeCount := 0,
                 pendingCount := 0, failedCount := 0 \<rparr>"
  have sel: "selectedMediaId ?s = selectedMediaId st" by simp
  have second: "selectedMediaId (poll_tick (Poll_data (Some (pre @ op # post))) totalVariants st)
        = mediaGenerationId op"
    if "\<not> truthy (selectedMediaId st) \<and> (\<forall>p \<in> set pre. \<not> successful_with_id p) \<and> successful_with_id op"
    using foldl_observe_selects [of ?s pre op post] that sel
    by (simp add: poll_tick_selection)
  have first: "selectedMediaId (poll_tick (Poll_data (Some (pre @ op # post))) totalVariants st)
        = mediaGenerationId op"
    if "\<not> truthy (selectedMediaId st)
        \<and> (\<forall>p \<in> set pre. po_status p \<noteq> ''MEDIA_GENERATION_STATUS_SUCCESSFUL'')
        \<and> po_status op = ''MEDIA_GENERATION_STATUS_SUCCESSFUL'' \<and> truthy (mediaGenerationId op)"
    using second that by (simp add: successful_with_id_def)
  have keep: "selectedMediaId (poll_tick reply totalVariants st) = selectedMediaId st
      \<and> selectedMediaId (poll_loop replies totalVariants st) = selectedMediaId st"
    if "truthy (selectedMediaId st)"
    using that by (simp add: poll_tick_keeps_selection poll_loop_keeps_selection)
  have urls: "url \<in> set (videoUrls (poll_tick (Poll_data (Some ops)) totalVariants st))"
    if "x \<in> set ops \<and> successful_with_id x \<and> fifeUrl_of x = Some url \<and> url \<noteq> []" for x url
    using foldl_observe_collects [of x ops url ?s] that by (simp add: poll_tick_selection)
  from first second keep urls show ?thesis by blast
qed


lemma sample_ops:
  "\<not> successful_with_id (op_in_state s)"
  "po_status (op_in_state s) = s"
  "successful_with_id (successful_op ''media-1'' ''https://video/1'')"
  "successful_with_id (successful_op ''media-2'' ''https://video/2'')"
  "po_status (successful_op m u) = ''MEDIA_GENERATION_STATUS_SUCCESSFUL''"
  "mediaGenerationId (successful_op m u) = Some m"
  "fifeUrl_of (successful_op m u) = Some u"
  by (simp_all add: successful_with_id_def op_in_state_def successful_op_def truthy_def fifeUrl_of_def)

theorem first_success_wins_witness:
  "\<not> truthy (selectedMediaId (start_polling [one_handle, one_handle]))
   \<and> po_status (op_in_state ''MEDIA_GENERATION_STATUS_FAILED'') \<noteq> ''MEDIA_GENERATION_STATUS_SUCCESSFUL''
   \<and> selectedMediaId (poll_tick (Poll_data (Some ([op_in_state ''MEDIA_GENERATION_STATUS_FAILED'']
          @ successful_op ''media-1'' ''https://video/1''
          # [successful_op ''media-2'' ''https://video/2''])))
        2 (start_polling [one_handle, one_handle])) = Some ''media-1''
   \<and> ''https://video/2'' \<in> set (videoUrls (poll_tick (Poll_data (Some
          [op_in_state ''MEDIA_GENERATION_STATUS_FAILED'',
           successful_op ''media-1'' ''https://video/1'',
           successful_op ''media-2'' ''https://video/2'']))
        2 (start_polling [one_handle, one_handle])))
   \<and> truthy (selectedMediaId ((start_polling [one_handle, one_handle])
                 \<lparr> selectedMediaId := Some ''media-1'' \<rparr>))
   \<and> selectedMediaId (poll_tick (Poll_data (Some [successful_op ''media-2'' ''https://video/2'']))
        2 ((start_polling [one_handle, one_handle]) \<lparr> selectedMediaId := Some ''media-1'' \<rparr>))
       = Some ''media-1''"
proof -
  let ?st0 = "start_polling [one_handle, one_handle]"
  let ?st1 = "?st0 \<lparr> selectedMediaId := Some ''media-1'' \<rparr>"
  let ?failed = "op_in_state ''MEDIA_GENERATION_STATUS_FAILED''"
  let ?one = "successful_op ''media-1'' ''https://video/1''"
  let ?two = "successful_op ''media-2'' ''https://video/2''"
  have n: "\<not> truthy (selectedMediaId ?st0)" by (simp add: start_polling_def truthy_def)
  have pre: "\<forall>p \<in> set [?failed]. po_status p \<noteq> ''MEDIA_GENERATION_STATUS_SUCCESSFUL''"
    by (simp add: sample_ops)
  have one: "po_status ?one = ''MEDIA_GENERATION_STATUS_SUCCESSFUL'' \<and> truthy (mediaGenerationId ?one)"
    by (simp add: sample_ops truthy_def)
  have t: "truthy (selectedMediaId ?st1)" by (simp add: truthy_def)
  have two: "?two \<in> set [?failed, ?one, ?two] \<and> successful_with_id ?two
             \<and> fifeUrl_of ?two = Some ''https://video/2'' \<and> ''https://video/2'' \<noteq> []"
    by (simp add: sample_ops)
  note T0 = first_success_wins [of ?st0 "[?failed]" ?one "[?two]" 2]
  note T1 = first_success_wins [of ?st1 _ _ _ 2 "Poll_data (Some [?two])"]
  note T2 = first_success_wins [of ?st0 _ _ _ 2 _ _ "[?failed, ?one, ?two]"]
  have c0: "selectedMediaId (poll_tick (Poll_data (Some ([?failed] @ ?one # [?two]))) 2 ?st0)
              = mediaGenerationId ?one"
    using T0 [THEN conjunct1] n pre one by blast
  have c1: "selectedMediaId (poll_tick (Poll_data (Some [?two])) 2 ?st1) = selectedMediaId ?st1"
    using T1 [THEN conjunct2, THEN conjunct2, THEN conjunct1] t by blast
  have c2: "''https://video/2'' \<in> set (videoUrls (poll_tick (Poll_data (Some [?failed, ?one, ?two])) 2 ?st0))"
    using T2 [THEN conjunct2, THEN conjunct2, THEN conjunct2] two by blast
  show ?thesis using n pre t c0 c1 c2 by (simp add: sample_ops)
qed

section \<open>Polling one operation\<close>

lemma pollOperation_from_timeout:
  "\<not> i < maxTries \<Longrightarrow>
   pollOperation_from replies intervalMs maxTries i sleeps = (Inl Timeout_polling_status, sleeps)"
  by (subst pollOperation_from.simps) simp

lemma pollOperation_from_high_traffic:
  assumes "i < maxTries" and "high_traffic_failure (replies i)"
  shows "pollOperation_from replies intervalMs maxTries i sleeps
           = pollOperation_from replies intervalMs maxTries (i + 1) (sleeps @ [intervalMs * 2])"
  using assms
  by (subst pollOperation_from.simps)
     (auto simp: high_traffic_failure_def first_op_def Let_def
           split: status_reply.splits option.splits list.splits if_splits)

lemma pollOperation_from_successful:
  assumes "i < maxTries" and "successful_reply (replies i)" and "first_op (replies i) = Some op"
  shows "pollOperation_from replies intervalMs maxTries i sleeps = (Inr op, sleeps)"
  using assms
  by (subst pollOperation_from.simps)
     (auto simp: successful_reply_def first_op_def Let_def
           split: status_reply.splits option.splits list.splits if_splits)

text \<open>A run of HIGH_TRAFFIC failures only adds doubled waits.\<close>

lemma pollOperation_from_high_traffic_run:
  assumes "i + k \<le> maxTries" and "\<forall>j. i \<le> j \<and> j < i + k \<longrightarrow> high_traffic_failure (replies j)"
  shows "pollOperation_from replies intervalMs maxTries i sleeps
           = pollOperation_from replies intervalMs maxTries (i + k)
               (sleeps @ replicate k (intervalMs * 2))"
  using assms
proof (induction k arbitrary: i sleeps)
  case 0
  then show ?case by simp
next
  case (Suc k)
  have lt: "i < maxTries" using Suc.prems(1) by simp
  have ht: "high_traffic_failure (replies i)" using Suc.prems(2) by simp
  have le: "(i + 1) + k \<le> maxTries" using Suc.prems(1) by simp
  have all: "\<forall>j. i + 1 \<le> j \<and> j < (i + 1) + k \<longrightarrow> high_traffic_failure (replies j)"
    using Suc.prems(2) by simp
  have "pollOperation_from replies intervalMs maxTries i sleeps
          = pollOperation_from replies intervalMs maxTries (i + 1) (sleeps @ [intervalMs * 2])"
    using lt ht by (rule pollOperation_from_high_traffic)
  also have "\<dots> = pollOperation_from replies intervalMs maxTries ((i + 1) + k)
                      ((sleeps @ [intervalMs * 2]) @ replicate k (intervalMs * 2))"
    using le all by (rule Suc.IH)
  finally show ?case by (simp add: replicate_app_Cons_same)
qed

text \<open>
  The poller of a single operation retries on HIGH_TRAFFIC. In \<^verbatim>\<open>pollOperation\<close>, an
  attempt that finds the operation
  FAILED with a message that includes HIGH_TRAFFIC does not throw: the poller sleeps
  twice \<^verbatim>\<open>intervalMs\<close> and goes on with the next attempt, and so for any run of such
  attempts; when they use up all \<open>maxTries\<close> attempts the poller ends with the timeout
  error. For the replies FAILED (HIGH_TRAFFIC), FAILED (HIGH_TRAFFIC), SUCCESSFUL and
  \<open>maxTries \<ge> 3\<close> it returns the SUCCESSFUL operation at the third attempt, after two
  doubled sleeps.
\<close>

theorem high_traffic_retry:
  "(i < maxTries \<and> high_traffic_failure (replies i) \<longrightarrow>
      pollOperation_from replies intervalMs maxTries i sleeps
        = pollOperation_from replies intervalMs maxTries (i + 1) (sleeps @ [intervalMs * 2]))
   \<and> (\<forall>k. k \<le> maxTries \<and> (\<forall>j < k. high_traffic_failure (replies j)) \<longrightarrow>
        pollOperation replies intervalMs maxTries
          = pollOperation_from replies intervalMs maxTries k (replicate k (intervalMs * 2)))
   \<and> ((\<forall>j < maxTries. high_traffic_failure (replies j)) \<longrightarrow>
        pollOperation replies intervalMs maxTries
          = (Inl Timeout_polling_status, replicate maxTries (intervalMs * 2)))
   \<and> (3 \<le> maxTries \<and> high_traffic_failure (replies 0) \<and> high_traffic_failure (replies 1)
        \<and> successful_reply (replies 2) \<and> first_op (replies 2) = Some op \<longrightarrow>
        pollOperation replies intervalMs maxTries = (Inr op, [intervalMs * 2, intervalMs * 2]))"
proof -
  have one: "pollOperation_from replies intervalMs maxTries i sleeps
        = pollOperation_from replies intervalMs maxTries (i + 1) (sleeps @ [intervalMs * 2])"
    if "i < maxTries \<and> high_traffic_failure (replies i)"
    using that by (simp add: pollOperation_from_high_traffic)
  have run: "pollOperation replies intervalMs maxTries
          = pollOperation_from replies intervalMs maxTries k (replicate k (intervalMs * 2))"
    if "k \<le> maxTries \<and> (\<forall>j < k. high_traffic_failure (replies j))" for k
    using pollOperation_from_high_traffic_run [of 0 k maxTries replies intervalMs "[]"] that
    by (simp add: pollOperation_def)
  have out: "pollOperation replies intervalMs maxTries
          = (Inl Timeout_polling_status, replicate maxTries (intervalMs * 2))"
    if "\<forall>j < maxTries. high_traffic_failure (replies j)"
    using run [of maxTries] that by (simp add: pollOperation_from_timeout)
  have three: "pollOperation replies intervalMs maxTries = (Inr op, [intervalMs * 2, intervalMs * 2])"
    if "3 \<le> maxTries \<and> high_traffic_failure (replies 0) \<and> high_traffic_failure (replies 1)
        \<and> successful_reply (replies 2) \<and> first_op (replies 2) = Some op"
  proof -
    have "\<forall>j < 2. high_traffic_failure (replies j)"
      using that by (auto simp: less_Suc_eq numeral_2_eq_2)
    then have "pollOperation replies intervalMs maxTries
                 = pollOperation_from replies intervalMs maxTries 2 (replicate 2 (intervalMs * 2))"
      using run [of 2] that by simp
    also have "\<dots> = (Inr op, replicate 2 (intervalMs * 2))"
      using that by (intro pollOperation_from_successful) simp_all
    finally show ?thesis by (simp add: numeral_2_eq_2)
  qed
  from one run out three show ?thesis by blast
qed

lemma sample_status_replies:
  "high_traffic_failure (status_of high_traffic_status)"
  "successful_reply (status_of successful_status)"
  "first_op (status_of successful_status) = Some successful_status"
  by (simp_all add: high_traffic_failure_def successful_reply_def first_op_def status_of_def
        high_traffic_status_def successful_status_def starts_with_def)

theorem high_traffic_retry_witness:
  "(3::nat) \<le> 120 \<and> high_traffic_failure (high_traffic_then_success 0)
   \<and> high_traffic_failure (high_traffic_then_success 1)
   \<and> successful_reply (high_traffic_then_success 2)
   \<and> pollOperation_default high_traffic_then_success = (Inr successful_status, [5000, 5000])
   \<and> high_traffic_failure (always_high_traffic 0)
   \<and> pollOperation always_high_traffic 2500 1 = (Inl Timeout_polling_status, [5000])"
proof -
  have h: "(3::nat) \<le> 120 \<and> high_traffic_failure (high_traffic_then_success 0)
           \<and> high_traffic_failure (high_traffic_then_success 1)
           \<and> successful_reply (high_traffic_then_success 2)
           \<and> first_op (high_traffic_then_success 2) = Some successful_status"
    by (simp add: high_traffic_then_success_def sample_status_replies)
  have a: "\<forall>j < 1. high_traffic_failure (always_high_traffic j)"
    by (simp add: always_high_traffic_def sample_status_replies)
  note T1 = high_traffic_retry [of _ 120 high_traffic_then_success 2500 _ successful_status]
  note T2 = high_traffic_retry [of _ 1 always_high_traffic 2500]
  have c1: "pollOperation high_traffic_then_success 2500 120 = (Inr successful_status, [2500 * 2, 2500 * 2])"
    using T1 [THEN conjunct2, THEN conjunct2, THEN conjunct2] h by blast
  have c2: "pollOperation always_high_traffic 2500 1 = (Inl Timeout_polling_status, replicate 1 (2500 * 2))"
    using T2 [THEN conjunct2, THEN conjunct2, THEN conjunct1] a by blast
  show ?thesis using h a c1 c2 by (simp add: pollOperation_default_def)
qed


text \<open>One prompt whose job is polled by the batch loop of \<^verbatim>\<open>runAutoLogger\<close>.\<close>

lemma run_prompts_single:
  assumes "pe_generate env = Gen_operations ops"
    and "str_includes (toLowerCase p) ''(new)'' \<or> lastClipId cs \<noteq> None"
  shows "run_prompts i [(env, p)] cs = after_polling env (i + 2) p (poll_job (pe_status env) ops) cs"
  using assms by (auto simp: run_prompt_def split: computed.splits)

lemma provider_fields:
  "pe_generate (provider replies ok) = Gen_operations [one_handle]"
  "pe_status (provider replies ok) = replies"
  "pe_update_ok (provider replies ok) = ok"
  "pe_download_ok (provider replies ok) i"
  "lastClipId one_clip_chain \<noteq> None"
  "initialClips one_clip_chain = [first_clip]"
  by (simp_all add: provider_def one_clip_chain_def)

lemma high_traffic_first_tick:
  "poll_job high_traffic_twice [one_handle]
     = poll_tick (high_traffic_twice 0) 1 (start_polling [one_handle])"
proof -
  let ?st = "start_polling [one_handle]"
  let ?st' = "poll_tick (high_traffic_twice 0) 1 ?st"
  have start: "pollAttempts ?st = 0" "\<not> pollDone ?st" by (simp_all add: start_polling_def)
  have c: "completes (high_traffic_twice 0) 1"
    by (simp add: completes_def high_traffic_twice_def completed_count_def high_traffic_op_def
          op_in_state_def)
  have fin: "pollDone ?st'" using c by (simp add: poll_tick_done)
  have "poll_loop high_traffic_twice 1 ?st = poll_loop high_traffic_twice 1 ?st'"
    using poll_loop_step [of ?st high_traffic_twice 1] start by (simp add: maxPoll_def)
  also have "\<dots> = ?st'" using fin by (simp add: poll_loop_stop)
  finally show ?thesis by (simp add: poll_job_def)
qed

text \<open>
  C1, on the batch poll loop of \<^verbatim>\<open>runAutoLogger\<close>, the poller that keeps a tally of
  SUCCESSFUL and FAILED operations. The loop does not look at the reason of a failure:
  every FAILED operation adds to \<^verbatim>\<open>failedCount\<close>. For a job of one variant whose status
  replies are FAILED (HIGH_TRAFFIC), FAILED (HIGH_TRAFFIC), SUCCESSFUL, the first reply
  already ends the loop: the failure is counted, \<^verbatim>\<open>pollDone\<close> is set after one request
  with no sleep at all, nothing is selected, and the prompt is recorded as timed out. The
  SUCCESSFUL reply, the third, is never asked for, where \<^verbatim>\<open>pollOperation\<close> on the same
  replies returns it.
\<close>

theorem high_traffic_ends_batch_loop:
  "high_traffic_twice 0 = Poll_data (Some [high_traffic_op])
   \<and> high_traffic_twice 1 = Poll_data (Some [high_traffic_op])
   \<and> high_traffic_twice 2 = Poll_data (Some [successful_op ''media-1'' ''https://video/1''])
   \<and> po_status high_traffic_op = ''MEDIA_GENERATION_STATUS_FAILED''
   \<and> po_message high_traffic_op = Some ''PUBLIC_ERROR_HIGH_TRAFFIC''
   \<and> pollAttempts (poll_job high_traffic_twice [one_handle]) = 1
   \<and> pollDone (poll_job high_traffic_twice [one_handle])
   \<and> failedCount (poll_job high_traffic_twice [one_handle]) = 1
   \<and> slept (poll_job high_traffic_twice [one_handle]) = []
   \<and> selectedMediaId (poll_job high_traffic_twice [one_handle]) = None
   \<and> run_prompts 0 [(provider high_traffic_twice True, ''a cat'')] one_clip_chain
       = Value (record_error 2 ''a cat'' Poll_timeout one_clip_chain)"
proof -
  let ?ps = "poll_job high_traffic_twice [one_handle]"
  have tick: "pollAttempts ?ps = 1" "pollDone ?ps" "failedCount ?ps = 1" "slept ?ps = []"
    "selectedMediaId ?ps = None"
    unfolding high_traffic_first_tick
    by (simp_all add: poll_tick_def Let_def high_traffic_twice_def observe_def
          high_traffic_op_def op_in_state_def start_polling_def)
  have "\<not> truthy (selectedMediaId ?ps)" using tick(5) by (simp add: truthy_def)
  then have "after_polling (provider high_traffic_twice True) 2 ''a cat'' ?ps one_clip_chain
               = Value (record_error 2 ''a cat'' Poll_timeout one_clip_chain)"
    by (simp add: after_polling_abandoned)
  moreover have "run_prompts 0 [(provider high_traffic_twice True, ''a cat'')] one_clip_chain
       = after_polling (provider high_traffic_twice True) (0 + 2) ''a cat''
           (poll_job (pe_status (provider high_traffic_twice True)) [one_handle]) one_clip_chain"
    by (rule run_prompts_single) (simp_all add: provider_fields)
  moreover have "(0::nat) + 2 = 2" by simp
  ultimately have run: "run_prompts 0 [(provider high_traffic_twice True, ''a cat'')] one_clip_chain
       = Value (record_error 2 ''a cat'' Poll_timeout one_clip_chain)"
    by (simp only: provider_fields)
  have replies: "high_traffic_twice 0 = Poll_data (Some [high_traffic_op])"
    "high_traffic_twice 1 = Poll_data (Some [high_traffic_op])"
    "high_traffic_twice 2 = Poll_data (Some [successful_op ''media-1'' ''https://video/1''])"
    "po_status high_traffic_op = ''MEDIA_GENERATION_STATUS_FAILED''"
    "po_message high_traffic_op = Some ''PUBLIC_ERROR_HIGH_TRAFFIC''"
    by (simp_all add: high_traffic_twice_def high_traffic_op_def op_in_state_def)
  from replies tick run show ?thesis by (simp only: simp_thms)
qed

section \<open>Rounding to a double\<close>

lemma pow2_pos [simp]: "0 < pow2 e"
  by (simp add: pow2_def)

lemma pow2_Suc: "pow2 (e + 1) = 2 * pow2 e"
proof (cases "0 \<le> e")
  case True
  then have "nat (e + 1) = Suc (nat e)" by simp
  with True show ?thesis by (simp add: pow2_def)
next
  case False
  then have "nat (- e) = Suc (nat (- (e + 1)))" by simp
  with False show ?thesis by (auto simp: pow2_def)
qed

lemma pow2_pred: "pow2 (e - 1) = pow2 e / 2"
  using pow2_Suc [of "e - 1"] by simp

lemma pow2_add: "pow2 (a + b) = pow2 a * pow2 b"
proof -
  have nonneg: "pow2 (a + int k) = pow2 a * pow2 (int k)" for a k
  proof (induction k)
    case 0
    then show ?case by (simp add: pow2_def)
  next
    case (Suc k)
    have "a + int (Suc k) = (a + int k) + 1" by simp
    then have "pow2 (a + int (Suc k)) = pow2 ((a + int k) + 1)" by (rule arg_cong)
    also have "\<dots> = 2 * pow2 (a + int k)" by (rule pow2_Suc)
    also have "\<dots> = pow2 a * (2 * pow2 (int k))" using Suc by simp
    also have "2 * pow2 (int k) = pow2 (int k + 1)" by (simp only: pow2_Suc)
    also have "int k + 1 = int (Suc k)" by simp
    finally show ?case .
  qed
  show ?thesis
  proof (cases "0 \<le> b")
    case True
    then show ?thesis using nonneg [of a "nat b"] by simp
  next
    case False
    define k where "k = nat (- b)"
    have b: "b = - int k" using False by (simp add: k_def)
    have one: "pow2 (a + b) * pow2 (int k) = pow2 a"
      using nonneg [of "a + b" k] by (simp add: b)
    have two: "pow2 b * pow2 (int k) = 1"
      using nonneg [of b k] by (simp add: b pow2_def)
    have "pow2 (a + b) * pow2 (int k) = pow2 a * (pow2 b * pow2 (int k))"
      using one two by simp
    then show ?thesis using pow2_pos [of "int k"] by simp
  qed
qed

lemma pow2_mono: "a \<le> b \<Longrightarrow> pow2 a \<le> pow2 b"
proof -
  assume "a \<le> b"
  then have "pow2 b = pow2 a * pow2 (b - a)" using pow2_add [of a "b - a"] by simp
  moreover have "1 \<le> pow2 (b - a)" using \<open>a \<le> b\<close> by (simp add: pow2_def)
  ultimately show ?thesis
    using mult_left_mono [of 1 "pow2 (b - a)" "pow2 a"] pow2_pos [of a] by simp
qed

lemma pow2_less_imp: "pow2 a < pow2 b \<Longrightarrow> a < b"
  using pow2_mono [of b a] by (cases "a < b") auto

text \<open>The binary exponent found by halving and doubling is the right one.\<close>

lemma log2_up_bounds:
  "1 \<le> a \<Longrightarrow> 0 \<le> log2_up a \<and> pow2 (log2_up a) \<le> a \<and> a < pow2 (log2_up a + 1)"
proof (induction a rule: log2_up.induct)
  case (1 a)
  show ?case
  proof (cases "a < 2")
    case True
    then have "log2_up a = 0" by (subst log2_up.simps) simp
    then show ?thesis using True "1.prems" by (simp add: pow2_def)
  next
    case False
    then have half: "1 \<le> a / 2" by simp
    have eq: "log2_up a = log2_up (a / 2) + 1" using False by (subst log2_up.simps) simp
    from "1.IH" [OF False half]
    have IH: "0 \<le> log2_up (a / 2)" "pow2 (log2_up (a / 2)) \<le> a / 2"
      "a / 2 < pow2 (log2_up (a / 2) + 1)" by simp_all
    have "pow2 (log2_up (a / 2) + 1) \<le> a" using IH(2) by (simp add: pow2_Suc)
    moreover have "a < pow2 ((log2_up (a / 2) + 1) + 1)"
      using IH(3) by (subst pow2_Suc) simp
    ultimately show ?thesis unfolding eq using IH(1) by simp
  qed
qed

lemma log2_down_bounds:
  "0 < a \<Longrightarrow> a < 1 \<Longrightarrow> pow2 (log2_down a) \<le> a \<and> a < pow2 (log2_down a + 1)"
proof (induction a rule: log2_down.induct)
  case (1 a)
  have eq: "log2_down a = log2_down (2 * a) - 1"
    using "1.prems" by (subst log2_down.simps) simp
  have step: "\<not> (a \<le> 0 \<or> 1 \<le> a)" using "1.prems" by simp
  show ?case
  proof (cases "2 * a < 1")
    case True
    from "1.IH" [OF step _ True] "1.prems"
    have IH: "pow2 (log2_down (2 * a)) \<le> 2 * a" "2 * a < pow2 (log2_down (2 * a) + 1)" by simp_all
    have "pow2 (log2_down (2 * a) - 1) \<le> a" using IH(1) by (simp add: pow2_pred)
    moreover have "a < pow2 (log2_down (2 * a))" using IH(2) by (simp add: pow2_Suc)
    ultimately show ?thesis unfolding eq by simp
  next
    case False
    then have "log2_down (2 * a) = 0" by (subst log2_down.simps) simp
    then show ?thesis unfolding eq using False "1.prems" by (simp add: pow2_def)
  qed
qed

lemma floor_log2_bounds:
  assumes "0 < a"
  shows "pow2 (floor_log2 a) \<le> a" and "a < pow2 (floor_log2 a + 1)"
  using assms log2_up_bounds [of a] log2_down_bounds [of a]
  by (auto simp: floor_log2_def)

lemma floor_log2_unique:
  assumes "pow2 e \<le> a" and "a < pow2 (e + 1)"
  shows "floor_log2 a = e"
proof -
  have pos: "0 < a" using assms(1) pow2_pos [of e] by (rule less_le_trans [rotated])
  have "pow2 (floor_log2 a) < pow2 (e + 1)"
    using floor_log2_bounds(1) [OF pos] assms(2) by simp
  then have "floor_log2 a < e + 1" by (rule pow2_less_imp)
  moreover have "pow2 e < pow2 (floor_log2 a + 1)"
    using floor_log2_bounds(2) [OF pos] assms(1) by simp
  then have "e < floor_log2 a + 1" by (rule pow2_less_imp)
  ultimately show ?thesis by simp
qed

lemma round_half_even_error: "\<bar>of_int (round_half_even m) - m\<bar> \<le> 1 / 2"
proof -
  have "of_int \<lfloor>m\<rfloor> \<le> m" "m < of_int \<lfloor>m\<rfloor> + 1" by linarith+
  then show ?thesis by (auto simp: round_half_even_def Let_def abs_le_iff)
qed

lemma round_half_even_nonneg: "0 \<le> m \<Longrightarrow> 0 \<le> round_half_even m"
  by (auto simp: round_half_even_def Let_def)

lemma round_half_even_near:
  assumes "\<bar>m - of_int k\<bar> < 1 / 2"
  shows "round_half_even m = k"
proof -
  have "\<bar>of_int (round_half_even m) - (of_int k :: rat)\<bar> < 1"
    using round_half_even_error [of m] assms by linarith
  then have "\<bar>of_int (round_half_even m - k) :: rat\<bar> < 1" by simp
  then have "\<bar>round_half_even m - k\<bar> < 1"
    by (metis of_int_1 of_int_abs of_int_less_iff)
  then show ?thesis by simp
qed


text \<open>
  The error of rounding: a value below \<open>2^(E+1)\<close> is rounded to a double no further than
  \<open>2^(E-53)\<close> away.
\<close>

lemma round_to_double_error:
  assumes "0 \<le> x" and "x < pow2 (E + 1)" and "- 1022 \<le> E" and "E \<le> 1022"
  shows "\<exists>r. round_to_double x = Finite r \<and> 0 \<le> r \<and> \<bar>r - x\<bar> \<le> pow2 (E - 53)"
proof (cases "x = 0")
  case True
  then show ?thesis using less_imp_le [OF pow2_pos [of "E - 53"]] by (simp add: round_to_double_def)
next
  case False
  then have pos: "0 < x" using assms(1) by simp
  define e where "e = max (floor_log2 x) (- 1022)"
  define ulp where "ulp = pow2 (e - 52)"
  define k where "k = round_half_even (x / ulp)"
  define r where "r = of_int k * ulp"
  have "pow2 (floor_log2 x) < pow2 (E + 1)"
    using floor_log2_bounds(1) [OF pos] assms(2) by simp
  then have "floor_log2 x < E + 1" by (rule pow2_less_imp)
  then have eE: "e \<le> E" using assms(3) by (simp add: e_def)
  have ulp_pos: "0 < ulp" by (simp add: ulp_def)
  have ulp_le: "ulp \<le> pow2 (E - 52)" unfolding ulp_def using eE by (intro pow2_mono) simp
  have half: "pow2 (E - 52) / 2 = pow2 (E - 53)" using pow2_pred [of "E - 52"] by simp
  have k0: "0 \<le> k" unfolding k_def using pos ulp_pos by (intro round_half_even_nonneg) simp
  have r0: "0 \<le> r" unfolding r_def using k0 ulp_pos by simp
  have "r - x = ulp * (of_int k - x / ulp)" using ulp_pos by (simp add: r_def field_simps)
  then have "\<bar>r - x\<bar> = ulp * \<bar>of_int k - x / ulp\<bar>" using ulp_pos by (simp add: abs_mult)
  also have "\<dots> \<le> ulp * (1 / 2)"
    using round_half_even_error [of "x / ulp"] ulp_pos unfolding k_def
    by (intro mult_left_mono) simp_all
  also have "\<dots> \<le> pow2 (E - 53)" using ulp_le half by simp
  finally have err: "\<bar>r - x\<bar> \<le> pow2 (E - 53)" .
  have "pow2 (E - 53) \<le> pow2 (E + 1)" by (intro pow2_mono) simp
  then have "r < pow2 (E + 1) + pow2 (E + 1)" using err assms(2) by linarith
  also have "\<dots> = pow2 ((E + 1) + 1)" by (simp only: pow2_Suc [of "E + 1"])
  also have "\<dots> \<le> pow2 1024" using assms(4) by (intro pow2_mono) simp
  finally have small: "\<not> pow2 1024 \<le> r" by simp
  have "round_to_double x = Finite r"
    using pos False small
    by (simp add: round_to_double_def Let_def e_def [symmetric] ulp_def [symmetric]
          k_def [symmetric] r_def [symmetric])
  with r0 err show ?thesis by blast
qed

text \<open>Rounding a given value, for which the exponent and the nearest multiple are known.\<close>

lemma round_to_double_eval:
  assumes "pow2 e \<le> x" and "x < pow2 (e + 1)" and "- 1022 \<le> e" and "e \<le> 1022"
    and "\<bar>x / pow2 (e - 52) - of_int k\<bar> < 1 / 2"
  shows "round_to_double x = Finite (of_int k * pow2 (e - 52))"
proof -
  have pos: "0 < x" using assms(1) pow2_pos [of e] by (rule less_le_trans [rotated])
  have e: "max (floor_log2 x) (- 1022) = e"
    using floor_log2_unique [OF assms(1,2)] assms(3) by simp
  have k: "round_half_even (x / pow2 (e - 52)) = k"
    using assms(5) by (rule round_half_even_near)
  obtain r where r: "round_to_double x = Finite r"
    using round_to_double_error [of x e] pos assms(2,3,4) by auto
  have "r = of_int k * pow2 (e - 52)"
    using r pos by (simp add: round_to_double_def Let_def e k split: if_splits)
  with r show ?thesis by simp
qed


section \<open>Clip times\<close>

lemma epsilon_literal_near:
  "\<exists>l. epsilon_literal = Finite l \<and> 0 \<le> l \<and> \<bar>l - 1 / 10 ^ 9\<bar> \<le> 1 / 2 ^ 51"
proof -
  have "(1::rat) / 10 ^ 9 < pow2 (- 30 + 1)" by (simp add: pow2_def)
  from round_to_double_error [OF _ this]
  obtain l where l: "round_to_double (1 / 10 ^ 9) = Finite l" "0 \<le> l"
    "\<bar>l - 1 / 10 ^ 9\<bar> \<le> pow2 (- 30 - 53)" by auto
  have "pow2 (- 30 - 53) \<le> 1 / 2 ^ 51" by (simp add: pow2_def)
  with l show ?thesis unfolding epsilon_literal_def by (intro exI [of _ l]) simp
qed

lemma duration_literal_near:
  "\<exists>l. duration_literal = Finite l \<and> 0 \<le> l \<and> \<bar>l - 7000000001 / 10 ^ 9\<bar> \<le> 1 / 2 ^ 51"
proof -
  have "(7000000001::rat) / 10 ^ 9 < pow2 (2 + 1)" by (simp add: pow2_def)
  from round_to_double_error [OF _ this]
  obtain l where l: "round_to_double (7000000001 / 10 ^ 9) = Finite l" "0 \<le> l"
    "\<bar>l - 7000000001 / 10 ^ 9\<bar> \<le> pow2 (2 - 53)" by auto
  have "pow2 (2 - 53) \<le> 1 / 2 ^ 51" by (simp add: pow2_def)
  with l show ?thesis unfolding duration_literal_def by (intro exI [of _ l]) simp
qed

text \<open>
  Below \<open>2^22\<close> seconds the three roundings (of the end time read, of the literal and of
  the sum) together stay under half a nanosecond, so \<^verbatim>\<open>toFixed(9)\<close> writes the exact
  sum.
\<close>

lemma add_literal_exact:
  fixes n m :: nat
  assumes "n + m < 4194304 * 10 ^ 9"
    and "0 \<le> l" and "\<bar>l - of_nat m / 10 ^ 9\<bar> \<le> 1 / 2 ^ 51"
  shows "toFixed9 (number_add (round_to_double (of_nat n / 10 ^ 9)) (Finite l)) = Some (fixed9 (n + m))"
proof -
  let ?q = "(of_nat n :: rat) / 10 ^ 9"
  let ?c = "(of_nat m :: rat) / 10 ^ 9"
  have int_bound: "(of_nat (n + m) :: rat) \<le> 4194304 * 10 ^ 9 - 1"
  proof -
    have "n + m + 1 \<le> 4194304 * 10 ^ 9" using assms(1) by simp
    then have "(of_nat (n + m + 1) :: rat) \<le> of_nat (4194304 * 10 ^ 9)"
      by (simp only: of_nat_le_iff)
    then show ?thesis by simp
  qed
  then have sum_bound: "?q + ?c \<le> 4194304 - 1 / 10 ^ 9"
    by (simp add: field_simps)
  have q0: "0 \<le> ?q" and c0: "0 \<le> ?c" by simp_all
  have "?q < pow2 (21 + 1)" using sum_bound c0 by (simp add: pow2_def)
  from round_to_double_error [OF q0 this]
  obtain r1 where r1: "round_to_double ?q = Finite r1" "0 \<le> r1" "\<bar>r1 - ?q\<bar> \<le> pow2 (21 - 53)"
    by auto
  have p32: "pow2 (21 - 53) = 1 / 2 ^ 32" by (simp add: pow2_def)
  have x0: "0 \<le> r1 + l" using r1(2) assms(2) by simp
  have "r1 + l \<le> ?q + ?c + (1 / 2 ^ 32 + 1 / 2 ^ 51)"
    using r1(3) assms(3) unfolding p32 by linarith
  also have "\<dots> \<le> 4194304 - 1 / 10 ^ 9 + (1 / 2 ^ 32 + 1 / 2 ^ 51)"
    using sum_bound by simp
  also have "\<dots> < pow2 (21 + 1)" by (simp add: pow2_def)
  finally have "r1 + l < pow2 (21 + 1)" .
  from round_to_double_error [OF x0 this]
  obtain s where s: "round_to_double (r1 + l) = Finite s" "0 \<le> s" "\<bar>s - (r1 + l)\<bar> \<le> pow2 (21 - 53)"
    by auto
  have close: "\<bar>s - (?q + ?c)\<bar> \<le> 1 / 2 ^ 32 + 1 / 2 ^ 32 + 1 / 2 ^ 51"
    using s(3) r1(3) assms(3) unfolding p32 by linarith
  have "(1::rat) / 2 ^ 32 + 1 / 2 ^ 32 + 1 / 2 ^ 51 < 1 / (2 * 10 ^ 9)" by simp
  with close have "\<bar>s - (?q + ?c)\<bar> < 1 / (2 * 10 ^ 9)" by linarith
  then have "\<bar>s - (?q + ?c)\<bar> * 10 ^ 9 < 1 / (2 * 10 ^ 9) * 10 ^ 9"
    by (intro mult_strict_right_mono) simp_all
  moreover have "s * 10 ^ 9 - of_nat (n + m) = (s - (?q + ?c)) * 10 ^ 9"
    by (simp add: field_simps)
  then have "\<bar>s * 10 ^ 9 - of_nat (n + m)\<bar> = \<bar>s - (?q + ?c)\<bar> * 10 ^ 9"
    by (simp only: abs_mult) simp
  ultimately have "\<bar>s * 10 ^ 9 - of_nat (n + m)\<bar> < 1 / 2"
    by simp
  then have "of_int (int (n + m)) \<le> s * 10 ^ 9 + 1 / 2"
    and "s * 10 ^ 9 + 1 / 2 < of_int (int (n + m)) + 1"
    by (simp_all only: of_int_of_nat_eq abs_less_iff) linarith+
  then have "\<lfloor>s * 10 ^ 9 + 1 / 2\<rfloor> = int (n + m)"
    by (rule floor_unique)
  then have n: "nat \<lfloor>\<bar>s\<bar> * 10 ^ 9 + 1 / 2\<rfloor> = n + m" using s(2) by simp
  have "(1::rat) / 2 ^ 32 + 1 / 2 ^ 32 + 1 / 2 ^ 51 \<le> 1" by simp
  then have "s - (?q + ?c) \<le> 1" using close by linarith
  moreover have "(0::rat) \<le> 1 / 10 ^ 9" by simp
  ultimately have "s \<le> 4194304 + 1" using sum_bound by linarith
  then have small: "\<not> 10 ^ 21 \<le> \<bar>s\<bar>" using s(2) by simp
  show ?thesis
    using r1(1) s(1) s(2) small n by (simp add: toFixed9_def)
qed


lemma newClip_exact:
  assumes "clips \<noteq> []" and "endTime (last clips) = Some e"
    and "read_literal (remove_first CHR ''s'' e) = Decimal_literal (of_nat n / 10 ^ 9)"
    and "n + 7000000001 < 4194304 * 10 ^ 9"
  shows "newClip clips selected prompt_text
           = Value \<lparr> clipId = selected, startTime = Some (fixed9 (n + 1) @ ''s''),
                     endTime = Some (fixed9 (n + 7000000001) @ ''s''),
                     clip_prompt = Some prompt_text \<rparr>"
proof -
  have t: "lastEndTime clips = Value (round_to_double (of_nat n / 10 ^ 9))"
    using assms(1,2,3) by (simp add: lastEndTime_def parseFloat_def)
  obtain l1 where l1: "epsilon_literal = Finite l1" "0 \<le> l1" "\<bar>l1 - 1 / 10 ^ 9\<bar> \<le> 1 / 2 ^ 51"
    using epsilon_literal_near by blast
  obtain l7 where l7: "duration_literal = Finite l7" "0 \<le> l7"
    "\<bar>l7 - 7000000001 / 10 ^ 9\<bar> \<le> 1 / 2 ^ 51"
    using duration_literal_near by blast
  have b1: "n + 1 < 4194304 * 10 ^ 9" using assms(4) by simp
  have "toFixed9 (number_add (round_to_double (of_nat n / 10 ^ 9)) (Finite l1)) = Some (fixed9 (n + 1))"
    using add_literal_exact [OF b1 l1(2), simplified] l1(3) by simp
  moreover have "toFixed9 (number_add (round_to_double (of_nat n / 10 ^ 9)) (Finite l7))
                   = Some (fixed9 (n + 7000000001))"
    using add_literal_exact [OF assms(4) l7(2)] l7(3) by simp
  ultimately show ?thesis by (simp add: newClip_def t l1(1) l7(1))
qed

lemma newClip_first:
  "newClip [] selected prompt_text
     = Value \<lparr> clipId = selected, startTime = Some (fixed9 1 @ ''s''),
               endTime = Some (fixed9 7000000001 @ ''s''), clip_prompt = Some prompt_text \<rparr>"
proof -
  have t: "lastEndTime [] = Value (round_to_double (of_nat 0 / 10 ^ 9))"
    by (simp add: lastEndTime_def round_to_double_def)
  obtain l1 where l1: "epsilon_literal = Finite l1" "0 \<le> l1" "\<bar>l1 - 1 / 10 ^ 9\<bar> \<le> 1 / 2 ^ 51"
    using epsilon_literal_near by blast
  obtain l7 where l7: "duration_literal = Finite l7" "0 \<le> l7"
    "\<bar>l7 - 7000000001 / 10 ^ 9\<bar> \<le> 1 / 2 ^ 51"
    using duration_literal_near by blast
  have "toFixed9 (number_add (round_to_double (of_nat 0 / 10 ^ 9)) (Finite l1)) = Some (fixed9 (0 + 1))"
    using l1(3) by (intro add_literal_exact l1(2)) simp_all
  moreover have "toFixed9 (number_add (round_to_double (of_nat 0 / 10 ^ 9)) (Finite l7))
                   = Some (fixed9 (0 + 7000000001))"
    using l7(3) by (intro add_literal_exact l7(2)) simp_all
  ultimately show ?thesis unfolding newClip_def t l1(1) l7(1) by simp
qed

text \<open>Writing numbers out.\<close>

lemma digits_of_small: "n < 10 \<Longrightarrow> digits_of n = [digit_char n]"
  by (subst digits_of.simps) simp

lemma digits_of_large: "\<not> n < 10 \<Longrightarrow> digits_of n = digits_of (n div 10) @ [digit_char (n mod 10)]"
  by (subst digits_of.simps) simp

lemma digit_chars:
  "digit_char 0 = CHR ''0''" "digit_char 1 = CHR ''1''" "digit_char 2 = CHR ''2''"
  "digit_char 3 = CHR ''3''" "digit_char 4 = CHR ''4''" "digit_char 5 = CHR ''5''"
  "digit_char 6 = CHR ''6''" "digit_char 7 = CHR ''7''" "digit_char 8 = CHR ''8''"
  "digit_char 9 = CHR ''9''" "digit_char (Suc 0) = CHR ''1''"
  by code_simp+

lemma replicate_zeros:
  "replicate 8 c = [c, c, c, c, c, c, c, c]" "replicate 9 c = [c, c, c, c, c, c, c, c, c]"
  by (simp_all add: eval_nat_numeral)

lemma fixed9_samples:
  "fixed9 1 = ''0.000000001''" "fixed9 7000000001 = ''7.000000001''"
  "fixed9 7000000002 = ''7.000000002''" "fixed9 14000000002 = ''14.000000002''"
  by (simp_all add: fixed9_def digits_of_small digits_of_large digit_chars replicate_zeros Let_def)

text \<open>The two literals and the steps of the clip times for a last clip ending at \<open>2^23\<close> seconds.\<close>

lemma epsilon_literal_value: "epsilon_literal = Finite (4835703278458517 * pow2 (- 82))"
proof -
  have "round_to_double (1 / 10 ^ 9) = Finite (of_int 4835703278458517 * pow2 (- 30 - 52))"
    by (rule round_to_double_eval) (simp_all add: pow2_def)
  then show ?thesis by (simp add: epsilon_literal_def)
qed

lemma duration_literal_value: "duration_literal = Finite (7881299349024268 * pow2 (- 50))"
proof -
  have "round_to_double (7000000001 / 10 ^ 9) = Finite (of_int 7881299349024268 * pow2 (2 - 52))"
    by (rule round_to_double_eval) (simp_all add: pow2_def)
  then show ?thesis by (simp add: duration_literal_def)
qed

lemma long_scene_end: "lastEndTime long_scene = Value (Finite 8388608)"
proof -
  have "read_literal ''8388608'' = Decimal_literal 8388608"
    by (simp add: read_literal_def strip_sign_def is_white_space_def starts_with_def
          is_decimal_digit_def decimal_value_def exponent_part_def pow10_def Let_def)
  moreover have "round_to_double 8388608 = Finite (of_int 4503599627370496 * pow2 (23 - 52))"
    by (rule round_to_double_eval) (simp_all add: pow2_def)
  ultimately show ?thesis
    by (simp add: lastEndTime_def long_scene_def parseFloat_def pow2_def)
qed

lemma long_scene_start_sum:
  "number_add (Finite 8388608) epsilon_literal = Finite (4503599627370497 * pow2 (- 29))"
proof -
  have "round_to_double (8388608 + 4835703278458517 * pow2 (- 82))
          = Finite (of_int 4503599627370497 * pow2 (23 - 52))"
    by (rule round_to_double_eval) (simp_all add: pow2_def)
  then show ?thesis by (simp add: epsilon_literal_value)
qed

lemma long_scene_end_sum:
  "number_add (Finite 8388608) duration_literal = Finite (4503603385466881 * pow2 (- 29))"
proof -
  have "round_to_double (8388608 + 7881299349024268 * pow2 (- 50))
          = Finite (of_int 4503603385466881 * pow2 (23 - 52))"
    by (rule round_to_double_eval) (simp_all add: pow2_def)
  then show ?thesis by (simp add: duration_literal_value)
qed

lemma floor_rat_numerals:
  "\<lfloor>(numeral a :: rat) / numeral b\<rfloor> = (numeral a :: int) div numeral b"
  using floor_divide_of_int_eq [of "numeral a" "numeral b", where ?'a = rat] by simp

lemma fixed9_long:
  "fixed9 8388608000000002 = ''8388608.000000002''"
  "fixed9 8388615000000002 = ''8388615.000000002''"
  by (simp_all add: fixed9_def digits_of_small digits_of_large digit_chars Let_def)

section \<open>The format of the times\<close>

lemma length_last_digits [simp]: "length (last_digits k b) = k"
  by (induction k arbitrary: b) simp_all

lemma digits_of_nonempty: "digits_of n \<noteq> []"
  by (subst digits_of.simps) simp

lemma digits_of_shift:
  "0 < a \<Longrightarrow> b < 10 ^ k \<Longrightarrow> digits_of (a * 10 ^ k + b) = digits_of a @ last_digits k b"
proof (induction k arbitrary: b)
  case 0
  then show ?case by simp
next
  case (Suc k)
  have big: "\<not> a * 10 ^ Suc k + b < 10"
  proof -
    have "(1::nat) \<le> a" "(10::nat) \<le> 10 ^ Suc k" using Suc.prems(1) by simp_all
    then have "1 * 10 \<le> a * 10 ^ Suc k" by (rule mult_le_mono)
    then show ?thesis by linarith
  qed
  have split: "a * 10 ^ Suc k + b = 10 * (a * 10 ^ k) + b" by simp
  have d: "(a * 10 ^ Suc k + b) div 10 = a * 10 ^ k + b div 10" unfolding split by simp
  have m: "(a * 10 ^ Suc k + b) mod 10 = b mod 10" unfolding split by simp
  have "b div 10 < 10 ^ k" using Suc.prems(2) by (simp add: div_less_iff_less_mult)
  from Suc.IH [OF Suc.prems(1) this]
  have IH: "digits_of (a * 10 ^ k + b div 10) = digits_of a @ last_digits k (b div 10)" .
  have "digits_of (a * 10 ^ Suc k + b)
          = digits_of ((a * 10 ^ Suc k + b) div 10) @ [digit_char ((a * 10 ^ Suc k + b) mod 10)]"
    using big by (rule digits_of_large)
  also have "\<dots> = digits_of (a * 10 ^ k + b div 10) @ [digit_char (b mod 10)]"
    by (simp only: d m)
  also have "\<dots> = (digits_of a @ last_digits k (b div 10)) @ [digit_char (b mod 10)]"
    by (simp only: IH)
  finally show ?case by simp
qed

lemma last_digits_pad:
  "0 < k \<Longrightarrow> b < 10 ^ k \<Longrightarrow>
   length (digits_of b) \<le> k
   \<and> last_digits k b = replicate (k - length (digits_of b)) CHR ''0'' @ digits_of b"
proof (induction k arbitrary: b)
  case 0
  then show ?case by simp
next
  case (Suc k)
  show ?case
  proof (cases "b < 10")
    case True
    have zeros: "last_digits k 0 = replicate k CHR ''0''" for k
      by (induction k) (simp_all add: digit_chars replicate_append_same)
    have "b div 10 = 0" "b mod 10 = b" using True by simp_all
    then show ?thesis using True by (simp add: digits_of_small zeros)
  next
    case False
    then have k: "0 < k" using Suc.prems(2) by (cases k) simp_all
    have "b div 10 < 10 ^ k" using Suc.prems(2) by (simp add: div_less_iff_less_mult)
    from Suc.IH [OF k this]
    have IH: "length (digits_of (b div 10)) \<le> k"
      "last_digits k (b div 10)
         = replicate (k - length (digits_of (b div 10))) CHR ''0'' @ digits_of (b div 10)"
      by simp_all
    show ?thesis using IH False by (simp add: digits_of_large Suc_diff_le)
  qed
qed

lemma fixed9_decimal_seconds: "fixed9 n @ ''s'' = decimal_seconds n"
proof (cases "n < 10 ^ 9")
  case True
  then have dm: "n div 10 ^ 9 = 0" "n mod 10 ^ 9 = n" by simp_all
  from last_digits_pad [of 9 n] True
  have len: "length (digits_of n) \<le> 9"
    and pad: "last_digits 9 n = replicate (9 - length (digits_of n)) CHR ''0'' @ digits_of n"
    by simp_all
  have ten: "10 - length (digits_of n) = Suc (9 - length (digits_of n))" using len by simp
  show ?thesis
    using len dm pad by (simp add: fixed9_def decimal_seconds_def ten digits_of_small digit_chars Let_def)
next
  case False
  define a b where "a = n div 10 ^ 9" and "b = n mod 10 ^ 9"
  have a: "0 < a" using False by (simp add: a_def div_greater_zero_iff)
  have b: "b < 10 ^ 9" by (simp add: b_def)
  have n: "n = a * 10 ^ 9 + b" by (simp add: a_def b_def)
  have shape: "digits_of n = digits_of a @ last_digits 9 b"
    unfolding n using a b by (rule digits_of_shift)
  have "0 < length (digits_of a)" using digits_of_nonempty [of a] by simp
  then have long: "\<not> length (digits_of n) \<le> 9" by (simp add: shape)
  show ?thesis
    using long a_def b_def shape by (simp add: fixed9_def decimal_seconds_def Let_def)
qed


lemma decimal_seconds_samples:
  "decimal_seconds 1 = ''0.000000001s''" "decimal_seconds 7000000001 = ''7.000000001s''"
  "decimal_seconds 7000000002 = ''7.000000002s''" "decimal_seconds 14000000002 = ''14.000000002s''"
  using fixed9_samples by (simp_all add: fixed9_decimal_seconds [symmetric])

lemma read_literal_first_clip:
  "read_literal (remove_first CHR ''s'' ''7.000000001s'') = Decimal_literal (of_nat 7000000001 / 10 ^ 9)"
  by (simp add: read_literal_def strip_sign_def is_white_space_def starts_with_def
        is_decimal_digit_def decimal_value_def exponent_part_def pow10_def Let_def)

text \<open>
  C8, within the reach of double precision. With no clip so far the new clip runs
  from 0.000000001s to 7.000000001s. When the last clip's \<^verbatim>\<open>endTime\<close> (its first
  \<^verbatim>\<open>s\<close> removed) reads as \<open>n\<close> nanoseconds and \<open>n\<close> plus 7.000000001 s stays below
  \<open>2^22\<close> seconds, the new clip's \<^verbatim>\<open>startTime\<close> is \<open>n + 1\<close> nanoseconds and its
  \<^verbatim>\<open>endTime\<close> is that plus 7 seconds, each written as decimal seconds with nine
  fractional digits and the suffix \<^verbatim>\<open>s\<close>. A last clip ending at 7.000000001s gives a
  clip from 7.000000002s to 14.000000002s.
\<close>

theorem clip_times:
  "newClip [] selected prompt_text
     = Value \<lparr> clipId = selected, startTime = Some ''0.000000001s'',
               endTime = Some ''7.000000001s'', clip_prompt = Some prompt_text \<rparr>
   \<and> (clips \<noteq> [] \<and> endTime (last clips) = Some e
        \<and> read_literal (remove_first CHR ''s'' e) = Decimal_literal (of_nat n / 10 ^ 9)
        \<and> n + 7000000001 < 4194304 * 10 ^ 9 \<longrightarrow>
      newClip clips selected prompt_text
        = Value \<lparr> clipId = selected, startTime = Some (decimal_seconds (n + 1)),
                  endTime = Some (decimal_seconds (n + 1 + 7000000000)),
                  clip_prompt = Some prompt_text \<rparr>)
   \<and> (clips \<noteq> [] \<and> endTime (last clips) = Some ''7.000000001s'' \<longrightarrow>
      newClip clips selected prompt_text
        = Value \<lparr> clipId = selected, startTime = Some ''7.000000002s'',
                  endTime = Some ''14.000000002s'', clip_prompt = Some prompt_text \<rparr>)"
proof -
  have first: "newClip [] selected prompt_text
     = Value \<lparr> clipId = selected, startTime = Some ''0.000000001s'',
               endTime = Some ''7.000000001s'', clip_prompt = Some prompt_text \<rparr>"
    unfolding newClip_first fixed9_decimal_seconds by (simp only: decimal_seconds_samples)
  have general: "newClip clips selected prompt_text
        = Value \<lparr> clipId = selected, startTime = Some (decimal_seconds (n + 1)),
                  endTime = Some (decimal_seconds (n + 1 + 7000000000)),
                  clip_prompt = Some prompt_text \<rparr>"
    if "clips \<noteq> [] \<and> endTime (last clips) = Some e
        \<and> read_literal (remove_first CHR ''s'' e) = Decimal_literal (of_nat n / 10 ^ 9)
        \<and> n + 7000000001 < 4194304 * 10 ^ 9" for e n
  proof -
    have "n + 1 + 7000000000 = n + 7000000001" by simp
    then show ?thesis
      using newClip_exact [of clips e n selected prompt_text] that
      by (simp only: fixed9_decimal_seconds) simp
  qed
  have seven: "newClip clips selected prompt_text
        = Value \<lparr> clipId = selected, startTime = Some ''7.000000002s'',
                  endTime = Some ''14.000000002s'', clip_prompt = Some prompt_text \<rparr>"
    if "clips \<noteq> [] \<and> endTime (last clips) = Some ''7.000000001s''"
  proof -
    have "(7000000001::nat) + 7000000001 < 4194304 * 10 ^ 9" by simp
    with that read_literal_first_clip
    have "newClip clips selected prompt_text
        = Value \<lparr> clipId = selected, startTime = Some (decimal_seconds (7000000001 + 1)),
                  endTime = Some (decimal_seconds (7000000001 + 1 + 7000000000)),
                  clip_prompt = Some prompt_text \<rparr>"
      by (intro general [of "''7.000000001s''" 7000000001]) simp
    moreover have "(7000000001::nat) + 1 = 7000000002" "(7000000001::nat) + 1 + 7000000000 = 14000000002"
      by simp_all
    ultimately show ?thesis by (simp only: decimal_seconds_samples)
  qed
  from first general seven show ?thesis by blast
qed

lemma first_clip_end: "[first_clip] \<noteq> [] \<and> endTime (last [first_clip]) = Some ''7.000000001s''"
  by (simp add: first_clip_def)

theorem clip_times_witness:
  "endTime (last [first_clip]) = Some ''7.000000001s''
   \<and> newClip [first_clip] (Some ''media-1'') ''a cat''
       = Value \<lparr> clipId = Some ''media-1'', startTime = Some ''7.000000002s'',
                 endTime = Some ''14.000000002s'', clip_prompt = Some ''a cat'' \<rparr>"
  using clip_times [of "Some ''media-1''" "''a cat''" "[first_clip]", THEN conjunct2, THEN conjunct2]
    first_clip_end
  by blast

text \<open>
  Beyond that reach the sum is not exact. For a last clip ending at 8388608s the new
  clip's \<^verbatim>\<open>startTime\<close> is 8388608.000000002s, where the end plus 0.000000001 is
  8388608.000000001s.
\<close>

theorem epsilon_lost_in_long_scene:
  "endTime (last long_scene) = Some ''8388608s''
   \<and> newClip long_scene (Some ''media-1'') ''a cat''
       = Value \<lparr> clipId = Some ''media-1'', startTime = Some ''8388608.000000002s'',
                 endTime = Some ''8388615.000000002s'', clip_prompt = Some ''a cat'' \<rparr>
   \<and> decimal_seconds (8388608000000000 + 1) = ''8388608.000000001s''"
proof -
  have "toFixed9 (Finite (4503599627370497 * pow2 (- 29))) = Some ''8388608.000000002''"
    by (simp add: toFixed9_def pow2_def floor_rat_numerals fixed9_long)
  moreover have "toFixed9 (Finite (4503603385466881 * pow2 (- 29))) = Some ''8388615.000000002''"
    by (simp add: toFixed9_def pow2_def floor_rat_numerals fixed9_long)
  ultimately have "newClip long_scene (Some ''media-1'') ''a cat''
       = Value \<lparr> clipId = Some ''media-1'', startTime = Some ''8388608.000000002s'',
                 endTime = Some ''8388615.000000002s'', clip_prompt = Some ''a cat'' \<rparr>"
    by (simp add: newClip_def long_scene_end long_scene_start_sum long_scene_end_sum)
  moreover have "fixed9 8388608000000001 = ''8388608.000000001''"
    by (simp add: fixed9_def digits_of_small digits_of_large digit_chars Let_def)
  then have "decimal_seconds (8388608000000000 + 1) = ''8388608.000000001s''"
    by (simp add: fixed9_decimal_seconds [symmetric])
  moreover have "endTime (last long_scene) = Some ''8388608s''" by (simp add: long_scene_def)
  ultimately show ?thesis by simp
qed

section \<open>The scene update\<close>

lemma newClip_fields:
  "newClip clips selected prompt_text = Value c \<Longrightarrow>
   clipId c = selected \<and> clip_prompt c = Some prompt_text"
  by (auto simp: newClip_def split: computed.splits option.splits)

lemma update_scene_failed:
  "newClip (initialClips cs) selected p = Value c \<Longrightarrow>
   update_scene False n p selected cs = Value (record_error n p Update_scene_failed cs)"
  by (simp add: update_scene_def)

lemma update_scene_succeeded:
  "newClip (initialClips cs) selected p = Value c \<Longrightarrow>
   update_scene True n p selected cs
     = Value (cs \<lparr> initialClips := initialClips cs @ [c], lastClipId := selected \<rparr>)"
  by (simp add: update_scene_def)

lemma update_scene_cases:
  assumes "update_scene ok n p selected cs = Value cs'"
  shows "(\<not> ok \<and> initialClips cs' = initialClips cs \<and> lastClipId cs' = lastClipId cs)
       \<or> (ok \<and> (\<exists>c. newClip (initialClips cs) selected p = Value c
                     \<and> initialClips cs' = initialClips cs @ [c] \<and> lastClipId cs' = selected))"
  using assms by (cases ok) (auto simp: update_scene_def split: computed.splits)

lemma run_prompt_cases:
  assumes "run_prompt env n p cs = Value cs'"
  shows "(initialClips cs' = initialClips cs \<and> lastClipId cs' = lastClipId cs)
       \<or> (pe_update_ok env
           \<and> (\<exists>c. initialClips cs' = initialClips cs @ [c] \<and> clipId c = lastClipId cs'))"
proof (cases "pe_generate env")
  case Gen_throws
  with assms show ?thesis by (auto simp: run_prompt_def split: if_splits)
next
  case Gen_no_operations
  with assms show ?thesis by (auto simp: run_prompt_def split: if_splits)
next
  case (Gen_operations ops)
  let ?ps = "poll_job (pe_status env) ops"
  let ?cs = "download_videos (pe_download_ok env) n p (videoUrls ?ps) cs"
  from assms Gen_operations have after: "after_polling env n p ?ps cs = Value cs'"
    by (auto simp: run_prompt_def split: if_splits)
  show ?thesis
  proof (cases "\<not> pollDone ?ps \<or> \<not> truthy (selectedMediaId ?ps)")
    case True
    with after have "cs' = record_error n p Poll_timeout cs"
      by (simp add: after_polling_abandoned)
    then show ?thesis by simp
  next
    case False
    with after have "update_scene (pe_update_ok env) n p (selectedMediaId ?ps) ?cs = Value cs'"
      by (simp add: after_polling_def)
    from update_scene_cases [OF this] show ?thesis
      by (auto dest: newClip_fields)
  qed
qed

text \<open>One prompt on a chain of one clip, with a provider whose scene update fails or succeeds.\<close>

lemma poll_job_sample:
  "pollDone (poll_job pending_active_successful [one_handle])"
  "selectedMediaId (poll_job pending_active_successful [one_handle]) = Some ''media-1''"
  "videoUrls (poll_job pending_active_successful [one_handle]) = [''https://video/1'']"
proof -
  let ?r = pending_active_successful
  let ?st0 = "start_polling [one_handle]"
  let ?st1 = "poll_tick (?r 0) 1 ?st0"
  let ?st2 = "poll_tick (?r 1) 1 ?st1"
  let ?st3 = "poll_tick (?r 2) 1 ?st2"
  have a0: "pollAttempts ?st0 = 0" and d0: "\<not> pollDone ?st0" by (simp_all add: start_polling_def)
  have a1: "pollAttempts ?st1 = 1" using a0 by simp
  have a2: "pollAttempts ?st2 = 2" using a0 by simp
  have d1: "\<not> pollDone ?st1" using d0 completes_pending_active_successful(1)
    by (simp add: poll_tick_done)
  have d2: "\<not> pollDone ?st2" using d1 completes_pending_active_successful(2)
    by (simp add: poll_tick_done)
  have d3: "pollDone ?st3" using completes_pending_active_successful(3)
    by (simp add: poll_tick_done)
  have "poll_loop ?r 1 ?st0 = poll_loop ?r 1 (poll_tick (?r (pollAttempts ?st0)) 1 ?st0)"
    by (rule poll_loop_step) (simp_all add: a0 d0 maxPoll_def)
  also have "\<dots> = poll_loop ?r 1 ?st1" by (simp only: a0)
  also have "\<dots> = poll_loop ?r 1 (poll_tick (?r (pollAttempts ?st1)) 1 ?st1)"
    by (rule poll_loop_step) (simp_all only: a1 d1 maxPoll_def, simp_all)
  also have "\<dots> = poll_loop ?r 1 ?st2" by (simp only: a1)
  also have "\<dots> = poll_loop ?r 1 (poll_tick (?r (pollAttempts ?st2)) 1 ?st2)"
    by (rule poll_loop_step) (simp_all only: a2 d2 maxPoll_def, simp_all)
  also have "\<dots> = poll_loop ?r 1 ?st3" by (simp only: a2)
  also have "\<dots> = ?st3" by (rule poll_loop_stop) (simp only: d3, simp)
  finally have job: "poll_job ?r [one_handle] = ?st3"
    by (simp add: poll_job_def)
  have st2: "selectedMediaId ?st2 = None" "videoUrls ?st2 = []"
    by (simp_all add: poll_tick_def Let_def pending_active_successful_def observe_def
          op_in_state_def start_polling_def)
  have r2: "?r 2 = Poll_data (Some [successful_op ''media-1'' ''https://video/1''])"
    by (simp add: pending_active_successful_def)
  show "pollDone (poll_job ?r [one_handle])" using d3 by (simp only: job)
  show "selectedMediaId (poll_job ?r [one_handle]) = Some ''media-1''"
    unfolding job r2 poll_tick_selection using st2
    by (simp add: observe_def successful_op_def truthy_def fifeUrl_of_def Let_def)
  show "videoUrls (poll_job ?r [one_handle]) = [''https://video/1'']"
    unfolding job r2 poll_tick_selection using st2
    by (simp add: observe_def successful_op_def truthy_def fifeUrl_of_def Let_def)
qed

lemma newClip_second:
  "newClip [first_clip] (Some ''media-1'') ''a cat'' = Value second_clip"
proof -
  have "(7000000001::nat) + 7000000001 < 4194304 * 10 ^ 9" by simp
  from newClip_exact [OF _ _ read_literal_first_clip this, of "[first_clip]"] first_clip_end
  have "newClip [first_clip] (Some ''media-1'') ''a cat''
     = Value \<lparr> clipId = Some ''media-1'', startTime = Some (fixed9 (7000000001 + 1) @ ''s''),
               endTime = Some (fixed9 (7000000001 + 7000000001) @ ''s''),
               clip_prompt = Some ''a cat'' \<rparr>"
    by simp
  then show ?thesis by (simp add: fixed9_samples second_clip_def)
qed

lemma run_prompt_sample:
  "run_prompt (provider pending_active_successful ok) 2 ''a cat'' one_clip_chain
     = update_scene ok 2 ''a cat'' (Some ''media-1'') (one_clip_chain \<lparr> successCount := 1 \<rparr>)"
proof -
  let ?env = "provider pending_active_successful ok"
  let ?ps = "poll_job pending_active_successful [one_handle]"
  have "run_prompt ?env 2 ''a cat'' one_clip_chain = after_polling ?env 2 ''a cat'' ?ps one_clip_chain"
    by (simp add: run_prompt_def provider_fields)
  also have "\<dots> = update_scene ok 2 ''a cat'' (Some ''media-1'')
                     (download_videos (\<lambda>i. True) 2 ''a cat'' [''https://video/1''] one_clip_chain)"
    by (simp add: after_polling_def poll_job_sample truthy_def provider_def)
  also have "download_videos (\<lambda>i. True) 2 ''a cat'' [''https://video/1''] one_clip_chain
               = one_clip_chain \<lparr> successCount := 1 \<rparr>"
    by (simp add: download_videos_def one_clip_chain_def)
  finally show ?thesis .
qed

lemma update_scene_sample:
  "update_scene False 2 ''a cat'' (Some ''media-1'') (one_clip_chain \<lparr> successCount := 1 \<rparr>)
     = Value (record_error 2 ''a cat'' Update_scene_failed (one_clip_chain \<lparr> successCount := 1 \<rparr>))"
  "update_scene True 2 ''a cat'' (Some ''media-1'') (one_clip_chain \<lparr> successCount := 1 \<rparr>)
     = Value (one_clip_chain \<lparr> initialClips := [first_clip, second_clip],
                lastClipId := Some ''media-1'', successCount := 1 \<rparr>)"
  by (simp_all add: update_scene_def newClip_second one_clip_chain_def)

section \<open>The wait before a retry\<close>


















section \<open>After a failed scene update\<close>

text \<open>
  C9, with the run going on. When \<^verbatim>\<open>project.updateScene\<close> fails, the step only records
  the error: the local clip list and the last clip id are as before, and so they are after
  the whole prompt. The run does not stop there: the \<^verbatim>\<open>for\<close> loop goes on with the next
  prompt, from the state the failed prompt has left. When the update succeeds, the local
  clip list becomes the list with the new clip appended and the last clip id becomes the
  id of the new clip; and a prompt changes the local clip list in no other way.
\<close>

theorem scene_update_outcome:
  "(\<forall>c. newClip (initialClips cs) selected p = Value c \<longrightarrow>
        update_scene False n p selected cs = Value (record_error n p Update_scene_failed cs)
        \<and> initialClips (record_error n p Update_scene_failed cs) = initialClips cs
        \<and> lastClipId (record_error n p Update_scene_failed cs) = lastClipId cs
        \<and> update_scene True n p selected cs
            = Value (cs \<lparr> initialClips := initialClips cs @ [c], lastClipId := selected \<rparr>)
        \<and> clipId c = selected)
   \<and> (\<forall>cs'. run_prompt env n p cs = Value cs' \<and> \<not> pe_update_ok env \<longrightarrow>
        initialClips cs' = initialClips cs \<and> lastClipId cs' = lastClipId cs)
   \<and> (\<forall>cs'. run_prompt env n p cs = Value cs' \<and> initialClips cs' \<noteq> initialClips cs \<longrightarrow>
        pe_update_ok env
        \<and> (\<exists>c. initialClips cs' = initialClips cs @ [c] \<and> clipId c = lastClipId cs'))
   \<and> (\<forall>i cs'. n = i + 2 \<and> run_prompt env n p cs = Value cs' \<and> \<not> pe_update_ok env \<longrightarrow>
        run_prompts i ((env, p) # rest) cs = run_prompts (i + 1) rest cs')"
proof -
  have step: "update_scene False n p selected cs = Value (record_error n p Update_scene_failed cs)
        \<and> initialClips (record_error n p Update_scene_failed cs) = initialClips cs
        \<and> lastClipId (record_error n p Update_scene_failed cs) = lastClipId cs
        \<and> update_scene True n p selected cs
            = Value (cs \<lparr> initialClips := initialClips cs @ [c], lastClipId := selected \<rparr>)
        \<and> clipId c = selected"
    if "newClip (initialClips cs) selected p = Value c" for c
    using that update_scene_failed [OF that] update_scene_succeeded [OF that] newClip_fields [OF that]
    by simp
  have failed: "initialClips cs' = initialClips cs \<and> lastClipId cs' = lastClipId cs"
    if "run_prompt env n p cs = Value cs' \<and> \<not> pe_update_ok env" for cs'
    using run_prompt_cases [of env n p cs cs'] that by blast
  have only: "pe_update_ok env
        \<and> (\<exists>c. initialClips cs' = initialClips cs @ [c] \<and> clipId c = lastClipId cs')"
    if "run_prompt env n p cs = Value cs' \<and> initialClips cs' \<noteq> initialClips cs" for cs'
    using run_prompt_cases [of env n p cs cs'] that by blast
  have goes_on: "run_prompts i ((env, p) # rest) cs = run_prompts (i + 1) rest cs'"
    if "n = i + 2 \<and> run_prompt env n p cs = Value cs' \<and> \<not> pe_update_ok env" for i cs'
  proof -
    from that have r: "run_prompt env (i + 2) p cs = Value cs'" by blast
    show ?thesis by (simp only: run_prompts.simps r computed.case)
  qed
  from step failed only goes_on show ?thesis by blast
qed

text \<open>The second of two prompts, after the scene update of the first has failed.\<close>

lemma newClip_after_first:
  "newClip [first_clip] selected p
     = Value \<lparr> clipId = selected, startTime = Some ''7.000000002s'',
               endTime = Some ''14.000000002s'', clip_prompt = Some p \<rparr>"
proof -
  have "(7000000001::nat) + 7000000001 < 4194304 * 10 ^ 9" by simp
  from newClip_exact [OF _ _ read_literal_first_clip this, of "[first_clip]"] first_clip_end
  have "newClip [first_clip] selected p
     = Value \<lparr> clipId = selected, startTime = Some (fixed9 (7000000001 + 1) @ ''s''),
               endTime = Some (fixed9 (7000000001 + 7000000001) @ ''s''),
               clip_prompt = Some p \<rparr>"
    by simp
  then show ?thesis by (simp add: fixed9_samples)
qed

lemma poll_job_at_once:
  assumes "m \<noteq> []" and "u \<noteq> []"
  shows "pollDone (poll_job (succeeds_at_once m u) [one_handle])"
    and "selectedMediaId (poll_job (succeeds_at_once m u) [one_handle]) = Some m"
    and "videoUrls (poll_job (succeeds_at_once m u) [one_handle]) = [u]"
proof -
  let ?r = "succeeds_at_once m u"
  let ?st = "start_polling [one_handle]"
  let ?st' = "poll_tick (?r 0) 1 ?st"
  have start: "pollAttempts ?st = 0" "\<not> pollDone ?st" by (simp_all add: start_polling_def)
  have c: "completes (?r 0) 1"
    by (simp add: completes_def succeeds_at_once_def completed_count_def successful_op_def)
  have fin: "pollDone ?st'" using c by (simp add: poll_tick_done)
  have "poll_loop ?r 1 ?st = poll_loop ?r 1 ?st'"
    using poll_loop_step [of ?st ?r 1] start by (simp add: maxPoll_def)
  also have "\<dots> = ?st'" using fin by (simp add: poll_loop_stop)
  finally have job: "poll_job ?r [one_handle] = ?st'" by (simp add: poll_job_def)
  show "pollDone (poll_job ?r [one_handle])" using fin by (simp only: job)
  show "selectedMediaId (poll_job ?r [one_handle]) = Some m"
    unfolding job using assms
    by (simp add: succeeds_at_once_def poll_tick_selection observe_def successful_op_def
          truthy_def fifeUrl_of_def start_polling_def Let_def)
  show "videoUrls (poll_job ?r [one_handle]) = [u]"
    unfolding job using assms
    by (simp add: succeeds_at_once_def poll_tick_selection observe_def successful_op_def
          truthy_def fifeUrl_of_def start_polling_def Let_def)
qed


lemma second_prompt:
  "run_prompt (provider (succeeds_at_once ''media-2'' ''https://video/2'') True) 3 ''a fox''
     (record_error 2 ''a cat'' Update_scene_failed (one_clip_chain \<lparr> successCount := 1 \<rparr>))
   = Value \<lparr> initialClips = [first_clip, fox_clip], lastClipId = Some ''media-2'',
             successCount = 2,
             errorPrompts = [\<lparr> ep_number = 2, ep_prompt = ''a cat'',
                               ep_error = Update_scene_failed \<rparr>] \<rparr>"
proof -
  let ?env = "provider (succeeds_at_once ''media-2'' ''https://video/2'') True"
  let ?cs = "record_error 2 ''a cat'' Update_scene_failed (one_clip_chain \<lparr> successCount := 1 \<rparr>)"
  let ?ps = "poll_job (succeeds_at_once ''media-2'' ''https://video/2'') [one_handle]"
  have ps: "pollDone ?ps" "selectedMediaId ?ps = Some ''media-2''" "videoUrls ?ps = [''https://video/2'']"
    by (rule poll_job_at_once; simp)+
  have anchor: "lastClipId ?cs = Some ''media-0''" "initialClips ?cs = [first_clip]"
    by (simp_all add: one_clip_chain_def)
  have "run_prompt ?env 3 ''a fox'' ?cs = after_polling ?env 3 ''a fox'' ?ps ?cs"
    by (simp add: run_prompt_def provider_fields anchor)
  also have "\<dots> = update_scene True 3 ''a fox'' (Some ''media-2'')
                     (download_videos (\<lambda>i. True) 3 ''a fox'' [''https://video/2''] ?cs)"
    by (simp add: after_polling_def ps truthy_def provider_def)
  also have "download_videos (\<lambda>i. True) 3 ''a fox'' [''https://video/2''] ?cs
               = ?cs \<lparr> successCount := 2 \<rparr>"
    by (simp add: download_videos_def one_clip_chain_def record_error_def)
  also have "update_scene True 3 ''a fox'' (Some ''media-2'') (?cs \<lparr> successCount := 2 \<rparr>)
               = Value \<lparr> initialClips = [first_clip, fox_clip], lastClipId = Some ''media-2'',
                         successCount = 2,
                         errorPrompts = [\<lparr> ep_number = 2, ep_prompt = ''a cat'',
                                           ep_error = Update_scene_failed \<rparr>] \<rparr>"
    by (simp add: update_scene_def newClip_after_first one_clip_chain_def record_error_def
          fox_clip_def)
  finally show ?thesis .
qed

lemma first_prompt_failed:
  "run_prompt (provider pending_active_successful False) 2 ''a cat'' one_clip_chain
     = Value (record_error 2 ''a cat'' Update_scene_failed (one_clip_chain \<lparr> successCount := 1 \<rparr>))"
  using run_prompt_sample [of False] update_scene_sample(1) by simp

theorem scene_update_outcome_witness:
  "newClip (initialClips one_clip_chain) (Some ''media-1'') ''a cat'' = Value second_clip
   \<and> update_scene False 2 ''a cat'' (Some ''media-1'') one_clip_chain
       = Value (record_error 2 ''a cat'' Update_scene_failed one_clip_chain)
   \<and> initialClips (record_error 2 ''a cat'' Update_scene_failed one_clip_chain) = [first_clip]
   \<and> lastClipId (record_error 2 ''a cat'' Update_scene_failed one_clip_chain) = Some ''media-0''
   \<and> update_scene True 2 ''a cat'' (Some ''media-1'') one_clip_chain
       = Value (one_clip_chain \<lparr> initialClips := [first_clip, second_clip],
                  lastClipId := Some ''media-1'' \<rparr>)
   \<and> clipId second_clip = Some ''media-1''
   \<and> run_prompt (provider pending_active_successful False) 2 ''a cat'' one_clip_chain
       = Value (record_error 2 ''a cat'' Update_scene_failed (one_clip_chain \<lparr> successCount := 1 \<rparr>))
   \<and> \<not> pe_update_ok (provider pending_active_successful False)
   \<and> initialClips (record_error 2 ''a cat'' Update_scene_failed (one_clip_chain \<lparr> successCount := 1 \<rparr>))
       = [first_clip]
   \<and> lastClipId (record_error 2 ''a cat'' Update_scene_failed (one_clip_chain \<lparr> successCount := 1 \<rparr>))
       = Some ''media-0''
   \<and> run_prompts 0 [(provider pending_active_successful False, ''a cat''),
                     (provider (succeeds_at_once ''media-2'' ''https://video/2'') True, ''a fox'')]
        one_clip_chain
       = run_prompts 1 [(provider (succeeds_at_once ''media-2'' ''https://video/2'') True, ''a fox'')]
           (record_error 2 ''a cat'' Update_scene_failed (one_clip_chain \<lparr> successCount := 1 \<rparr>))
   \<and> run_prompt (provider pending_active_successful True) 2 ''a cat'' one_clip_chain
       = Value (one_clip_chain \<lparr> initialClips := [first_clip, second_clip],
                  lastClipId := Some ''media-1'', successCount := 1 \<rparr>)
   \<and> pe_update_ok (provider pending_active_successful True)
   \<and> (\<exists>c. [first_clip, second_clip] = [first_clip] @ [c] \<and> clipId c = Some ''media-1'')"
proof -
  let ?cs = one_clip_chain
  let ?failed = "record_error 2 ''a cat'' Update_scene_failed (?cs \<lparr> successCount := 1 \<rparr>)"
  let ?updated = "?cs \<lparr> initialClips := [first_clip, second_clip],
                      lastClipId := Some ''media-1'', successCount := 1 \<rparr>"
  let ?fox = "(provider (succeeds_at_once ''media-2'' ''https://video/2'') True, ''a fox'')"
  have chain: "initialClips ?cs = [first_clip]" "lastClipId ?cs = Some ''media-0''"
    by (simp_all add: one_clip_chain_def)
  have nc: "newClip (initialClips ?cs) (Some ''media-1'') ''a cat'' = Value second_clip"
    by (simp add: chain newClip_second)
  have rf: "run_prompt (provider pending_active_successful False) 2 ''a cat'' ?cs = Value ?failed
            \<and> \<not> pe_update_ok (provider pending_active_successful False)"
    using first_prompt_failed by (simp add: provider_fields)
  have rf0: "(2::nat) = 0 + 2
            \<and> run_prompt (provider pending_active_successful False) 2 ''a cat'' ?cs = Value ?failed
            \<and> \<not> pe_update_ok (provider pending_active_successful False)"
    using rf by simp
  have rt: "run_prompt (provider pending_active_successful True) 2 ''a cat'' ?cs = Value ?updated
            \<and> initialClips ?updated \<noteq> initialClips ?cs"
    using run_prompt_sample [of True] update_scene_sample(2) by (simp add: chain)
  note step = scene_update_outcome [where cs = ?cs and selected = "Some ''media-1''"
      and p = "''a cat''" and n = 2 and env = "provider pending_active_successful False",
      THEN conjunct1, THEN spec, THEN mp, OF nc]
  note failed = scene_update_outcome [where cs = ?cs and selected = "Some ''media-1''"
      and p = "''a cat''" and n = 2 and env = "provider pending_active_successful False",
      THEN conjunct2, THEN conjunct1, THEN spec, THEN mp, OF rf]
  note updated = scene_update_outcome [where cs = ?cs and selected = "Some ''media-1''"
      and p = "''a cat''" and n = 2 and env = "provider pending_active_successful True",
      THEN conjunct2, THEN conjunct2, THEN conjunct1, THEN spec, THEN mp, OF rt]
  note goes_on = scene_update_outcome [where cs = ?cs and selected = "Some ''media-1''"
      and p = "''a cat''" and n = 2 and env = "provider pending_active_successful False"
      and rest = "[?fox]",
      THEN conjunct2, THEN conjunct2, THEN conjunct2, THEN spec, THEN spec, THEN mp, OF rf0]
  from goes_on have g: "run_prompts 0 [(provider pending_active_successful False, ''a cat''), ?fox] ?cs
       = run_prompts 1 [?fox] ?failed"
    by (simp only: add_0)
  from updated have ex: "\<exists>c. [first_clip, second_clip] = [first_clip] @ [c] \<and> clipId c = Some ''media-1''"
    by (simp add: chain)
  from step have s1: "update_scene False 2 ''a cat'' (Some ''media-1'') ?cs
       = Value (record_error 2 ''a cat'' Update_scene_failed ?cs)"
    and s2: "initialClips (record_error 2 ''a cat'' Update_scene_failed ?cs) = [first_clip]"
    and s3: "lastClipId (record_error 2 ''a cat'' Update_scene_failed ?cs) = Some ''media-0''"
    and s4: "update_scene True 2 ''a cat'' (Some ''media-1'') ?cs
       = Value (?cs \<lparr> initialClips := [first_clip, second_clip], lastClipId := Some ''media-1'' \<rparr>)"
    and s5: "clipId second_clip = Some ''media-1''"
    by (simp_all add: chain)
  from failed have f: "initialClips ?failed = [first_clip]" "lastClipId ?failed = Some ''media-0''"
    by (simp_all only: chain)
  from updated have u: "pe_update_ok (provider pending_active_successful True)" by (rule conjunct1)
  from nc s1 s2 s3 s4 s5 rf f g rt u ex show ?thesis by (simp only: simp_thms)
qed

text \<open>
  The run does not halt at the failed step. The scene update of the first prompt fails;
  the second prompt is run all the same, from the last clip id that the first has left
  as it was, and its clip is appended after \<open>first_clip\<close>.
\<close>

theorem failed_scene_update_run_goes_on:
  "\<not> pe_update_ok (provider pending_active_successful False)
   \<and> run_prompt (provider pending_active_successful False) 2 ''a cat'' one_clip_chain
       = Value (record_error 2 ''a cat'' Update_scene_failed (one_clip_chain \<lparr> successCount := 1 \<rparr>))
   \<and> ep_error (last (errorPrompts
         (record_error 2 ''a cat'' Update_scene_failed (one_clip_chain \<lparr> successCount := 1 \<rparr>))))
       = Update_scene_failed
   \<and> run_prompts 0 [(provider pending_active_successful False, ''a cat''),
                     (provider (succeeds_at_once ''media-2'' ''https://video/2'') True, ''a fox'')]
        one_clip_chain
       = Value \<lparr> initialClips = [first_clip, fox_clip], lastClipId = Some ''media-2'',
                 successCount = 2,
                 errorPrompts = [\<lparr> ep_number = 2, ep_prompt = ''a cat'',
                                   ep_error = Update_scene_failed \<rparr>] \<rparr>
   \<and> [first_clip, fox_clip] \<noteq> initialClips one_clip_chain
   \<and> Some ''media-2'' \<noteq> lastClipId one_clip_chain"
proof -
  have two: "(0::nat) + 2 = 2" and three: "(0::nat) + 1 + 2 = 3" by simp_all
  have run: "run_prompts 0 [(provider pending_active_successful False, ''a cat''),
                     (provider (succeeds_at_once ''media-2'' ''https://video/2'') True, ''a fox'')]
        one_clip_chain
       = Value \<lparr> initialClips = [first_clip, fox_clip], lastClipId = Some ''media-2'',
                 successCount = 2,
                 errorPrompts = [\<lparr> ep_number = 2, ep_prompt = ''a cat'',
                                   ep_error = Update_scene_failed \<rparr>] \<rparr>"
    by (simp only: run_prompts.simps two three first_prompt_failed second_prompt computed.case)
  have rest: "\<not> pe_update_ok (provider pending_active_successful False)"
    "ep_error (last (errorPrompts
         (record_error 2 ''a cat'' Update_scene_failed (one_clip_chain \<lparr> successCount := 1 \<rparr>))))
       = Update_scene_failed"
    "[first_clip, fox_clip] \<noteq> initialClips one_clip_chain"
    "Some ''media-2'' \<noteq> lastClipId one_clip_chain"
    by (simp_all add: provider_fields record_error_def one_clip_chain_def)
  from run rest first_prompt_failed show ?thesis by (simp only: simp_thms)
qed

end
